theory Spec2Isabelle
  imports Main
begin

section \<open>Python strings\<close>

text \<open>
  A Python \<open>str\<close> is modelled as a \<open>string\<close>: a list of characters, each character
  standing for the Unicode code point of the same number (0 to 255). Files are read in text
  mode, so the text a script sees is the decoded text with \<open>\n\<close> as the only line
  terminator; every function below works on that text.
\<close>

abbreviation NL :: char where
  "NL \<equiv> CHR 0x0A"

text \<open>\<open>str.isspace\<close> on one code point below 256.\<close>

definition is_space :: "char \<Rightarrow> bool" where
  "is_space c = (c \<in> set [CHR 0x09, CHR 0x0A, CHR 0x0B, CHR 0x0C, CHR 0x0D,
                           CHR 0x1C, CHR 0x1D, CHR 0x1E, CHR 0x1F, CHR 0x20,
                           CHR 0x85, CHR 0xA0])"

definition lstrip :: "string \<Rightarrow> string" where
  "lstrip s = dropWhile is_space s"

definition rstrip :: "string \<Rightarrow> string" where
  "rstrip s = rev (dropWhile is_space (rev s))"

definition strip :: "string \<Rightarrow> string" where
  "strip s = rstrip (lstrip s)"

text \<open>\<open>s.rstrip(chars)\<close> with an explicit character set.\<close>

definition rstrip_chars :: "string \<Rightarrow> string \<Rightarrow> string" where
  "rstrip_chars cs s = rev (dropWhile (\<lambda>c. c \<in> set cs) (rev s))"

definition startswith :: "string \<Rightarrow> string \<Rightarrow> bool" where
  "startswith s p = (take (length p) s = p)"

definition endswith :: "string \<Rightarrow> string \<Rightarrow> bool" where
  "endswith s p = (length p \<le> length s \<and> drop (length s - length p) s = p)"

text \<open>\<open>sub in s\<close>: substring test.\<close>

fun contains :: "string \<Rightarrow> string \<Rightarrow> bool" where
  "contains [] sub = (sub = [])"
| "contains (c # cs) sub = (startswith (c # cs) sub \<or> contains cs sub)"

text \<open>\<open>sep.join(xs)\<close>.\<close>

fun join :: "string \<Rightarrow> string list \<Rightarrow> string" where
  "join sep [] = []"
| "join sep [x] = x"
| "join sep (x # y # ys) = x @ sep @ join sep (y # ys)"

text \<open>\<open>s.split('\n')\<close>: always at least one field.\<close>

fun split_nl :: "string \<Rightarrow> string list" where
  "split_nl [] = [[]]"
| "split_nl (c # cs) =
     (if c = NL then [] # split_nl cs
      else (case split_nl cs of [] \<Rightarrow> [[c]] | l # ls \<Rightarrow> (c # l) # ls))"

text \<open>\<open>f.readlines()\<close>: the lines with their terminators; no empty last line.\<close>

fun readlines :: "string \<Rightarrow> string list" where
  "readlines [] = []"
| "readlines (c # cs) =
     (if c = NL then [NL] # readlines cs
      else (case readlines cs of [] \<Rightarrow> [[c]] | l # ls \<Rightarrow> (c # l) # ls))"

text \<open>\<open>s.split()\<close>: the maximal runs of non-whitespace characters.\<close>

fun split_ws_go :: "string \<Rightarrow> string \<Rightarrow> string list" where
  "split_ws_go cur [] = (if cur = [] then [] else [cur])"
| "split_ws_go cur (c # cs) =
     (if is_space c then (if cur = [] then split_ws_go [] cs else cur # split_ws_go [] cs)
      else split_ws_go (cur @ [c]) cs)"

definition split_ws :: "string \<Rightarrow> string list" where
  "split_ws s = split_ws_go [] s"

text \<open>
  \<open>str.lower\<close> on one code point below 256: the capitals are A-Z and the Latin-1
  capitals 0xC0-0xDE without the multiplication sign 0xD7; each maps to the code point 32
  above it.
\<close>

definition uppers :: string where
  "uppers = ''ABCDEFGHIJKLMNOPQRSTUVWXYZ'' @
     [CHR 0xC0, CHR 0xC1, CHR 0xC2, CHR 0xC3, CHR 0xC4, CHR 0xC5, CHR 0xC6, CHR 0xC7,
      CHR 0xC8, CHR 0xC9, CHR 0xCA, CHR 0xCB, CHR 0xCC, CHR 0xCD, CHR 0xCE, CHR 0xCF,
      CHR 0xD0, CHR 0xD1, CHR 0xD2, CHR 0xD3, CHR 0xD4, CHR 0xD5, CHR 0xD6,
      CHR 0xD8, CHR 0xD9, CHR 0xDA, CHR 0xDB, CHR 0xDC, CHR 0xDD, CHR 0xDE]"

definition lowers :: string where
  "lowers = ''abcdefghijklmnopqrstuvwxyz'' @
     [CHR 0xE0, CHR 0xE1, CHR 0xE2, CHR 0xE3, CHR 0xE4, CHR 0xE5, CHR 0xE6, CHR 0xE7,
      CHR 0xE8, CHR 0xE9, CHR 0xEA, CHR 0xEB, CHR 0xEC, CHR 0xED, CHR 0xEE, CHR 0xEF,
      CHR 0xF0, CHR 0xF1, CHR 0xF2, CHR 0xF3, CHR 0xF4, CHR 0xF5, CHR 0xF6,
      CHR 0xF8, CHR 0xF9, CHR 0xFA, CHR 0xFB, CHR 0xFC, CHR 0xFD, CHR 0xFE]"

definition lower_char :: "char \<Rightarrow> char" where
  "lower_char c = (case map_of (zip uppers lowers) c of Some l \<Rightarrow> l | None \<Rightarrow> c)"

definition lower :: "string \<Rightarrow> string" where
  "lower s = map lower_char s"

text \<open>
  \<open>s.replace(old, new)\<close> for a non-empty \<open>old\<close>: occurrences are replaced from the left
  and do not overlap. The counter is the number of characters of the current occurrence
  still to be skipped.
\<close>

fun replace_go :: "string \<Rightarrow> string \<Rightarrow> nat \<Rightarrow> string \<Rightarrow> string" where
  "replace_go old new n [] = []"
| "replace_go old new (Suc n) (c # cs) = replace_go old new n cs"
| "replace_go old new 0 (c # cs) =
     (if startswith (c # cs) old then new @ replace_go old new (length old - 1) cs
      else c # replace_go old new 0 cs)"

definition replace :: "string \<Rightarrow> string \<Rightarrow> string \<Rightarrow> string" where
  "replace s old new = replace_go old new 0 s"

text \<open>\<open>str(n)\<close> for a non-negative integer.\<close>

definition digit_char :: "nat \<Rightarrow> char" where
  "digit_char d = ''0123456789'' ! d"

fun str_nat :: "nat \<Rightarrow> string" where
  "str_nat n = (if n < 10 then [digit_char n] else str_nat (n div 10) @ [digit_char (n mod 10)])"

section \<open>PDF page loops\<close>

text \<open>
  A raised Python exception, with its message. The page-text library is external: a PDF is
  modelled by what each page's text call does, in page order, either raising or returning
  a text; the empty text stands for every falsy result (\<open>None\<close> or \<open>''\<close>).
\<close>

datatype error = Raised string

type_synonym pdf = "(error + string) list"

text \<open>The marker \<open>f"\n--- Page {n} ---\n"\<close>.\<close>

definition page_marker :: "nat \<Rightarrow> string" where
  "page_marker n = [NL] @ ''--- Page '' @ str_nat n @ '' ---'' @ [NL]"

text \<open>
  The page loop of \<open>batch_convert_pymupdf.py\<close> (and of \<open>quickstart_pymupdf.py\<close>), with
  the running \<open>page_num\<close> of \<open>enumerate\<close> and the accumulated \<open>text\<close>. An exception
  leaves the loop; the caller's \<open>except\<close> then counts the file as failed.
\<close>

fun page_loop :: "nat \<Rightarrow> string \<Rightarrow> pdf \<Rightarrow> error + string" where
  "page_loop page_num text [] = Inr text"
| "page_loop page_num text (Inl e # pages) = Inl e"
| "page_loop page_num text (Inr page_text # pages) =
     page_loop (page_num + 1)
       (if page_text \<noteq> [] then text @ page_marker (page_num + 1) @ page_text else text)
       pages"

definition pymupdf_text :: "pdf \<Rightarrow> error + string" where
  "pymupdf_text doc = page_loop 0 [] doc"

text \<open>
  \<open>extract_text_pdfplumber\<close> of \<open>scrape_pdfs.py\<close>: the non-empty page texts are
  collected and joined by a blank line; any exception makes the result \<open>None\<close>.
\<close>

fun plumber_loop :: "string list \<Rightarrow> pdf \<Rightarrow> error + string list" where
  "plumber_loop text [] = Inr text"
| "plumber_loop text (Inl e # pages) = Inl e"
| "plumber_loop text (Inr page_text # pages) =
     plumber_loop (if page_text \<noteq> [] then text @ [page_text] else text) pages"

definition extract_text_pdfplumber :: "pdf \<Rightarrow> string option" where
  "extract_text_pdfplumber pdf_file =
     (case plumber_loop [] pdf_file of
        Inl e \<Rightarrow> None
      | Inr text \<Rightarrow> Some (join [NL, NL] text))"

section \<open>Regular expressions\<close>

text \<open>
  The patterns of the scripts are sequences of literals and of quantified character
  classes, some of them captured as groups. Such a pattern is a list of items and is
  matched as Python's \<open>re\<close> matches it, by backtracking: a greedy repetition takes as many
  characters as it can and gives them back one at a time, a lazy one takes as few as it
  can and takes one more at a time.
\<close>

datatype cset =
    Chars string          \<comment> \<open>\<open>[abc]\<close>, or one escaped or literal character\<close>
  | NotChars string       \<comment> \<open>\<open>[^abc]\<close>: any other character, newline included\<close>
  | Dot                   \<comment> \<open>\<open>.\<close>: any character but newline\<close>
  | Space                 \<comment> \<open>\<open>\s\<close>\<close>
  | Range char char       \<comment> \<open>\<open>a-z\<close> inside a class\<close>
  | Or cset cset          \<comment> \<open>the union of two parts of one class\<close>

fun cmatch :: "cset \<Rightarrow> char \<Rightarrow> bool" where
  "cmatch (Chars cs) c = (c \<in> set cs)"
| "cmatch (NotChars cs) c = (c \<notin> set cs)"
| "cmatch Dot c = (c \<noteq> NL)"
| "cmatch Space c = is_space c"
| "cmatch (Range a b) c = ((of_char a :: nat) \<le> of_char c \<and> (of_char c :: nat) \<le> of_char b)"
| "cmatch (Or p q) c = (cmatch p c \<or> cmatch q c)"

datatype item =
    Lit string                          \<comment> \<open>a literal text\<close>
  | Rep cset nat "nat option" bool      \<comment> \<open>class, least and greatest count, greedy\<close>
  | Eol                                 \<comment> \<open>\<open>$\<close>: the end, or before a final newline\<close>
  | EolM                                \<comment> \<open>\<open>$\<close> under \<open>re.MULTILINE\<close>: the end, or before a newline\<close>

abbreviation once :: "cset \<Rightarrow> item" where
  "once c \<equiv> Rep c 1 (Some 1) True"

abbreviation opt :: "cset \<Rightarrow> item" where
  "opt c \<equiv> Rep c 0 (Some 1) True"

abbreviation plus :: "cset \<Rightarrow> item" where
  "plus c \<equiv> Rep c 1 None True"

abbreviation star :: "cset \<Rightarrow> item" where
  "star c \<equiv> Rep c 0 None True"

abbreviation lazy_star :: "cset \<Rightarrow> item" where
  "lazy_star c \<equiv> Rep c 0 None False"

text \<open>
  The result of a match: the text each item matched, in the order of the items, and the
  rest of the subject. A group that wraps one item is that item's text.
\<close>

type_synonym matched = "(string list \<times> string) option"

definition push :: "string \<Rightarrow> matched \<Rightarrow> matched" where
  "push a r = map_option (\<lambda>(gs, rest). (a # gs, rest)) r"

text \<open>
  One quantified class followed by the continuation \<open>k\<close> of the pattern; \<open>lo\<close> and \<open>hi\<close>
  are the counts still required and still allowed, \<open>acc\<close> the characters taken so far.
\<close>

fun rep :: "cset \<Rightarrow> bool \<Rightarrow> (string \<Rightarrow> matched) \<Rightarrow> nat \<Rightarrow> nat option \<Rightarrow> string \<Rightarrow> string \<Rightarrow> matched" where
  "rep c greedy k lo hi acc [] = (if lo = 0 then push acc (k []) else None)"
| "rep c greedy k lo hi acc (x # xs) =
     (if greedy then
        (case (if cmatch c x \<and> hi \<noteq> Some 0
               then rep c greedy k (lo - 1) (map_option (\<lambda>h. h - 1) hi) (acc @ [x]) xs
               else None) of
           Some r \<Rightarrow> Some r
         | None \<Rightarrow> (if lo = 0 then push acc (k (x # xs)) else None))
      else
        (case (if lo = 0 then push acc (k (x # xs)) else None) of
           Some r \<Rightarrow> Some r
         | None \<Rightarrow> (if cmatch c x \<and> hi \<noteq> Some 0
                     then rep c greedy k (lo - 1) (map_option (\<lambda>h. h - 1) hi) (acc @ [x]) xs
                     else None)))"

fun step :: "item \<Rightarrow> (string \<Rightarrow> matched) \<Rightarrow> string \<Rightarrow> matched" where
  "step (Lit l) k s = (if startswith s l then push l (k (drop (length l) s)) else None)"
| "step (Rep c lo hi greedy) k s = rep c greedy k lo hi [] s"
| "step Eol k s = (if s = [] \<or> s = [NL] then push [] (k s) else None)"
| "step EolM k s = (if s = [] \<or> hd s = NL then push [] (k s) else None)"

text \<open>\<open>pattern.match(s)\<close>: the match of the whole pattern at the start of \<open>s\<close>.\<close>

primrec re_match :: "item list \<Rightarrow> string \<Rightarrow> matched" where
  "re_match [] = (\<lambda>s. Some ([], s))"
| "re_match (i # is) = step i (re_match is)"

text \<open>\<open>pattern.search(s)\<close>, as a truth value: there is a match at some position.\<close>

fun re_search :: "item list \<Rightarrow> string \<Rightarrow> bool" where
  "re_search p [] = (re_match p [] \<noteq> None)"
| "re_search p (x # xs) = (re_match p (x # xs) \<noteq> None \<or> re_search p xs)"

text \<open>
  \<open>re.sub(pattern, repl, s)\<close>, the replacement given as a function of the matched texts.
  The subject is scanned from the left; at a match the replacement is written and the
  scan goes on after the matched text, otherwise one character is copied. The counter is
  the number of characters of the current match still to be skipped, \<open>prev\<close> the character
  before the current position. With \<open>bol\<close> the pattern starts with \<open>^\<close> under
  \<open>re.MULTILINE\<close>: a match starts only at the start of the subject or after a newline.
  Every pattern of the scripts takes at least one character; a match of no character is
  not replaced here.
\<close>

fun sub_go :: "bool \<Rightarrow> item list \<Rightarrow> (string list \<Rightarrow> string) \<Rightarrow> nat \<Rightarrow> char option \<Rightarrow> string \<Rightarrow> string" where
  "sub_go bol p f n prev [] = []"
| "sub_go bol p f (Suc n) prev (x # xs) = sub_go bol p f n (Some x) xs"
| "sub_go bol p f 0 prev (x # xs) =
     (if bol \<and> prev \<noteq> None \<and> prev \<noteq> Some NL then x # sub_go bol p f 0 (Some x) xs
      else
        (case re_match p (x # xs) of
           None \<Rightarrow> x # sub_go bol p f 0 (Some x) xs
         | Some (gs, rest) \<Rightarrow>
             (case length (concat gs) of
                0 \<Rightarrow> x # sub_go bol p f 0 (Some x) xs
              | Suc n \<Rightarrow> f gs @ sub_go bol p f n (Some x) xs)))"

definition re_sub :: "item list \<Rightarrow> (string list \<Rightarrow> string) \<Rightarrow> string \<Rightarrow> string" where
  "re_sub p f s = sub_go False p f 0 None s"

definition re_sub_multiline :: "item list \<Rightarrow> (string list \<Rightarrow> string) \<Rightarrow> string \<Rightarrow> string" where
  "re_sub_multiline p f s = sub_go True p f 0 None s"

text \<open>\<open>len(re.findall(pattern, s))\<close>: the number of matches, found as \<open>re.sub\<close> finds them.\<close>

fun count_go :: "item list \<Rightarrow> nat \<Rightarrow> string \<Rightarrow> nat" where
  "count_go p n [] = 0"
| "count_go p (Suc n) (x # xs) = count_go p n xs"
| "count_go p 0 (x # xs) =
     (case re_match p (x # xs) of
        None \<Rightarrow> count_go p 0 xs
      | Some (gs, rest) \<Rightarrow>
          (case length (concat gs) of
             0 \<Rightarrow> count_go p 0 xs
           | Suc n \<Rightarrow> Suc (count_go p n xs)))"

definition findall_count :: "item list \<Rightarrow> string \<Rightarrow> nat" where
  "findall_count p s = count_go p 0 s"

text \<open>The replacement \<open>r'\1'\<close> for a group that wraps the item at position \<open>i\<close>.\<close>

definition group :: "nat \<Rightarrow> string list \<Rightarrow> string" where
  "group i gs = (if i < length gs then gs ! i else [])"

section \<open>The substance filter\<close>

subsection \<open>The patterns\<close>

text \<open>\<open>\[([^\]]+)\]\([^)]*\)\<close>: a markdown link; group 1 is the link text.\<close>

definition link_pat :: "item list" where
  "link_pat = [Lit ''['', plus (NotChars '']''), Lit '']('', star (NotChars '')''), Lit '')'']"

text \<open>\<open>!\[.*?\]\([^)]*\)\<close>: a markdown image.\<close>

definition image_pat :: "item list" where
  "image_pat = [Lit ''!['', lazy_star Dot, Lit '']('', star (NotChars '')''), Lit '')'']"

text \<open>\<open>\*\*([^*]+)\*\*\<close> and \<open>__([^_]+)__\<close>: bold text.\<close>

definition bold_pat :: "item list" where
  "bold_pat = [Lit ''**'', plus (NotChars ''*''), Lit ''**'']"

definition ubold_pat :: "item list" where
  "ubold_pat = [Lit ''__'', plus (NotChars ''_''), Lit ''__'']"

text \<open>\<open>^[\s\[\]\-\*\(\)]+$\<close>, used with \<open>re.match\<close>: a line of brackets, dashes and stars.\<close>

definition symbols_pat :: "item list" where
  "symbols_pat = [plus (Or Space (Chars ''[]-*()'')), Eol]"

subsection \<open>The base filter: \<open>extract_substance.py\<close>\<close>

definition nav_words :: "string list" where
  "nav_words = [''menu'', ''navigation'', ''breadcrumb'', ''sidebar'', ''footer'',
                ''advertisement'', ''subscribe'', ''follow us'', ''contact us'',
                ''cookie'', ''privacy'', ''terms'', ''sign in'', ''log in'']"

text \<open>The four substitutions made on a kept line, in the order of the source.\<close>

definition clean_markdown :: "string \<Rightarrow> string" where
  "clean_markdown stripped =
     re_sub ubold_pat (group 1)
       (re_sub bold_pat (group 1)
         (re_sub image_pat (\<lambda>gs. [])
           (re_sub link_pat (group 1) stripped)))"

text \<open>
  The body of the loop over the body lines: \<open>None\<close> where the loop goes on without
  appending (a \<open>continue\<close>, or the last test failing), otherwise the line appended.
\<close>

definition keep_line :: "string \<Rightarrow> string option" where
  "keep_line line =
     (let stripped = strip line in
      if stripped = [] then None
      else if length stripped < 3 then None
      else if re_match symbols_pat stripped \<noteq> None then None
      else if list_ex (\<lambda>word. contains (lower stripped) word) nav_words \<and> length stripped < 30
        then None
      else if list_ex (\<lambda>c. c \<in> set stripped) [CHR ''.'', CHR ''!'', CHR ''?'', CHR ''#'', CHR 0x60]
              \<or> length stripped > 20
        then Some (clean_markdown stripped)
      else None)"

fun filter_body :: "string list \<Rightarrow> string list" where
  "filter_body [] = []"
| "filter_body (line # lines) =
     (case keep_line line of
        None \<Rightarrow> filter_body lines
      | Some kept \<Rightarrow> kept # filter_body lines)"

text \<open>
  The loop that reads the header: the lines starting with a URL prefix are collected,
  stripped on the right, up to the first other line holding ten \<open>=\<close> signs; the body starts
  after that line, or at line 0 when there is none.
\<close>

definition separator10 :: string where
  "separator10 = replicate 10 (CHR ''='')"

definition separator80 :: string where
  "separator80 = replicate 80 (CHR ''='')"

fun scan_header :: "nat \<Rightarrow> string list \<Rightarrow> string list \<Rightarrow> string list \<times> nat" where
  "scan_header i metadata_lines [] = (metadata_lines, 0)"
| "scan_header i metadata_lines (line # lines) =
     (if startswith line ''Source URL:'' \<or> startswith line ''Final URL:''
        then scan_header (i + 1) (metadata_lines @ [rstrip line]) lines
      else if contains line separator10 then (metadata_lines, i + 1)
      else scan_header (i + 1) metadata_lines lines)"

text \<open>\<open>extract_substance\<close>, from the text read to the text written back.\<close>

definition extract_substance :: "string \<Rightarrow> string" where
  "extract_substance content =
     (let lines = readlines content;
          (metadata_lines, body_start) = scan_header 0 [] lines;
          content_lines = filter_body (drop body_start lines)
      in join [NL] metadata_lines @ [NL] @ separator80 @ [NL, NL] @ join [NL] content_lines)"

subsection \<open>The stricter variant: \<open>final_extract.py\<close>\<close>

text \<open>\<open>[a-zA-Z]\<close>, used with \<open>re.search\<close>.\<close>

definition letter_pat :: "item list" where
  "letter_pat = [once (Or (Range (CHR ''a'') (CHR ''z'')) (Range (CHR ''A'') (CHR ''Z'')))]"

text \<open>
  \<open>[)(]{}\[\]]+\<close>, used with \<open>re.findall\<close>. Python reads it as the class \<open>[)(]\<close>, then the
  literal characters \<open>{\<close> and \<open>}\<close> (braces that hold no count are literal), an escaped
  \<open>[\<close>, an escaped \<open>]\<close>, and one or more \<open>]\<close>.
\<close>

definition symbol_pat :: "item list" where
  "symbol_pat = [once (Chars '')(''), Lit ''{}[]'', plus (Chars '']'')]"

definition junk_words :: "string list" where
  "junk_words = [''linkedin'', ''reddit'', ''facebook'', ''twitter'', ''email'',
                 ''subscribe'', ''sign in'', ''log in'', ''manage cookies'',
                 ''privacy'', ''cookie'', ''terms of use'']"

text \<open>
  \<open>is_real_sentence\<close>. The last test compares the integer \<open>symbol_count\<close> with the float
  \<open>len(words) / 2\<close>; it is written here on the naturals as \<open>2 * symbol_count > len(words)\<close>.
\<close>

definition is_real_sentence :: "string \<Rightarrow> bool" where
  "is_real_sentence line =
     (if \<not> re_search letter_pat line then False
      else let words = split_ws line in
        if length words < 3 then False
        else if list_ex (\<lambda>x. contains (lower line) x) junk_words then False
        else if contains line ''http'' \<and> contains line ''://'' then False
        else let symbol_count = findall_count symbol_pat line in
          if 2 * symbol_count > length words then False
          else True)"

definition final_keep_line :: "string \<Rightarrow> string option" where
  "final_keep_line line =
     (let stripped = strip line in
      if stripped = [] \<or> length stripped < 3 then None
      else if startswith stripped ''#'' then Some stripped
      else if contains stripped [CHR 0x60, CHR 0x60, CHR 0x60] \<or> startswith stripped ''def ''
              \<or> startswith stripped ''class ''
        then Some stripped
      else if is_real_sentence stripped
        then Some (re_sub image_pat (\<lambda>gs. []) (re_sub link_pat (group 1) stripped))
      else None)"

fun final_filter_body :: "string list \<Rightarrow> string list" where
  "final_filter_body [] = []"
| "final_filter_body (line # lines) =
     (case final_keep_line line of
        None \<Rightarrow> final_filter_body lines
      | Some kept \<Rightarrow> kept # final_filter_body lines)"

text \<open>\<open>extract_substance\<close> of \<open>final_extract.py\<close>; the header is read and written as in the base filter.\<close>

definition final_extract_substance :: "string \<Rightarrow> string" where
  "final_extract_substance content =
     (let lines = readlines content;
          (metadata_lines, body_start) = scan_header 0 [] lines;
          content_lines = final_filter_body (drop body_start lines)
      in join [NL] metadata_lines @ [NL] @ separator80 @ [NL, NL] @ join [NL] content_lines)"

subsection \<open>The polishing pass: \<open>polish_files.py\<close>\<close>

text \<open>The patterns of \<open>polish_file\<close>, in the order in which it applies them.\<close>

definition polish_image_pat :: "item list" where
  "polish_image_pat = [Lit ''!['', lazy_star Dot, Lit '']('', lazy_star Dot, Lit '')'']"

definition italic_pat :: "item list" where
  "italic_pat = [Lit ''*'', plus (NotChars ''*''), Lit ''*'']"

definition uitalic_pat :: "item list" where
  "uitalic_pat = [Lit ''_'', plus (NotChars ''_''), Lit ''_'']"

definition code_pat :: "item list" where
  "code_pat = [Lit [CHR 0x60], plus (NotChars [CHR 0x60]), Lit [CHR 0x60]]"

text \<open>Under \<open>re.MULTILINE\<close>, each after a \<open>^\<close>: \<open>\]\(\<close>, \<open>\|$\<close>, \<open>---$\<close> and \<open>#+\s*$\<close>.\<close>

definition orphan_pat :: "item list" where
  "orphan_pat = [Lit '']('']"

definition bar_pat :: "item list" where
  "bar_pat = [Lit ''|'', EolM]"

definition rule_pat :: "item list" where
  "rule_pat = [Lit ''---'', EolM]"

definition empty_header_pat :: "item list" where
  "empty_header_pat = [plus (Chars ''#''), star Space, EolM]"

text \<open>\<open>' +'\<close> and \<open>\n\s*\n\s*\n\s*\n+\<close>.\<close>

definition spaces_pat :: "item list" where
  "spaces_pat = [plus (Chars '' '')]"

definition blank_lines_pat :: "item list" where
  "blank_lines_pat = [Lit [NL], star Space, Lit [NL], star Space, Lit [NL], star Space, plus (Chars [NL])]"

definition polish_body :: "string \<Rightarrow> string" where
  "polish_body body =
     strip
       (re_sub blank_lines_pat (\<lambda>gs. [NL, NL])
       (re_sub spaces_pat (\<lambda>gs. '' '')
       (re_sub_multiline empty_header_pat (\<lambda>gs. [])
       (re_sub_multiline rule_pat (\<lambda>gs. [])
       (re_sub_multiline bar_pat (\<lambda>gs. [])
       (re_sub_multiline orphan_pat (\<lambda>gs. [])
       (re_sub code_pat (group 1)
       (re_sub uitalic_pat (group 1)
       (re_sub italic_pat (group 1)
       (re_sub ubold_pat (group 1)
       (re_sub bold_pat (group 1)
       (re_sub link_pat (group 1)
       (re_sub polish_image_pat (\<lambda>gs. []) body)))))))))))))"

text \<open>
  The loop that finds the header: \<open>header_lines\<close> is two more than the index of the last
  line that starts with a URL prefix or holds ten \<open>=\<close> signs, and 0 without such a line.
\<close>

fun polish_header_lines :: "nat \<Rightarrow> nat \<Rightarrow> string list \<Rightarrow> nat" where
  "polish_header_lines i header_lines [] = header_lines"
| "polish_header_lines i header_lines (line # lines) =
     polish_header_lines (i + 1)
       (if startswith line ''Source URL:'' \<or> startswith line ''Final URL:''
           \<or> contains line separator10
        then i + 2 else header_lines)
       lines"

definition polish_file :: "string \<Rightarrow> string" where
  "polish_file content =
     (let lines = split_nl content;
          header_lines = polish_header_lines 0 0 lines;
          metadata = join [NL] (take header_lines lines);
          body = join [NL] (drop header_lines lines)
      in rstrip metadata @ [NL, NL] @ polish_body body)"

subsection \<open>The conversion pass: \<open>convert_html_to_clean_text.py\<close>\<close>

text \<open>
  \<open>extract_metadata\<close>: the first five lines are read in order and a later line with the
  same prefix overwrites an earlier one. The dictionary has at most the two keys
  \<open>source_url\<close> and \<open>final_url\<close>.
\<close>

record metadata =
  source_url :: "string option"
  final_url :: "string option"

definition no_metadata :: metadata where
  "no_metadata = \<lparr>source_url = None, final_url = None\<rparr>"

fun read_metadata :: "metadata \<Rightarrow> string list \<Rightarrow> metadata" where
  "read_metadata m [] = m"
| "read_metadata m (line # lines) =
     read_metadata
       (if startswith line ''Source URL:''
          then m\<lparr>source_url := Some (strip (replace line ''Source URL:'' []))\<rparr>
        else if startswith line ''Final URL:''
          then m\<lparr>final_url := Some (strip (replace line ''Final URL:'' []))\<rparr>
        else m)
       lines"

definition extract_metadata :: "string \<Rightarrow> metadata" where
  "extract_metadata content = read_metadata no_metadata (take 5 (split_nl content))"

text \<open>
  The loop of \<open>process_file\<close> that finds the end of the header: one more than the index of
  the last line that starts with a URL prefix or with \<open>=\<close>.
\<close>

fun find_metadata_end :: "nat \<Rightarrow> nat \<Rightarrow> string list \<Rightarrow> nat" where
  "find_metadata_end i metadata_end [] = metadata_end"
| "find_metadata_end i metadata_end (line # lines) =
     find_metadata_end (i + 1)
       (if startswith line ''Source URL:'' \<or> startswith line ''Final URL:''
           \<or> startswith line ''=''
        then i + 1 else metadata_end)
       lines"

text \<open>
  \<open>process_file\<close>, from the text read to the text written. The conversion of the body,
  \<open>convert_html_to_clean_text\<close>, rests on the external HTML libraries and is the
  parameter \<open>convert\<close>; it returns a text for every input (it catches its own exceptions).
\<close>

definition process_file :: "(string \<Rightarrow> string) \<Rightarrow> string \<Rightarrow> string" where
  "process_file convert content =
     (let metadata = extract_metadata content;
          lines = split_nl content;
          metadata_end = find_metadata_end 0 0 lines;
          content_part = join [NL] (drop metadata_end lines);
          clean_text = convert content_part
      in (case source_url metadata of None \<Rightarrow> [] | Some u \<Rightarrow> ''Source URL: '' @ u @ [NL])
         @ (case final_url metadata of None \<Rightarrow> [] | Some u \<Rightarrow> ''Final URL: '' @ u @ [NL])
         @ separator80 @ [NL, NL] @ clean_text)"

subsection \<open>Files\<close>

text \<open>
  The directory of record files: a map from path to text. Each pass reads a file and
  writes its new text to the same path; reading a missing file raises.
\<close>

type_synonym files = "string \<rightharpoonup> string"

definition rewrite_file :: "(string \<Rightarrow> string) \<Rightarrow> files \<Rightarrow> string \<Rightarrow> error + files" where
  "rewrite_file pass fs file_path =
     (case fs file_path of
        None \<Rightarrow> Inl (Raised ''FileNotFoundError'')
      | Some content \<Rightarrow> Inr (fs(file_path \<mapsto> pass content)))"

text \<open>The first two lines of a text.\<close>

definition first_two_lines :: "string \<Rightarrow> string list" where
  "first_two_lines s = take 2 (split_nl s)"

section \<open>GitHub URLs: \<open>fix_github.py\<close>\<close>

text \<open>
  The three patterns of \<open>convert_github_to_raw\<close>, used with \<open>re.match\<close>:
  \<open>https://github\.com/([^/]+)/([^/]+)/blob/([^/]+)/(.+)\<close>, the same with \<open>tree\<close>, and
  \<open>https://github\.com/([^/]+)/([^/]+)/?$\<close>. The groups are the items at the positions
  1, 3, 5 and 7.
\<close>

definition blob_pat :: "item list" where
  "blob_pat = [Lit ''https://github.com/'', plus (NotChars ''/''), Lit ''/'', plus (NotChars ''/''),
               Lit ''/blob/'', plus (NotChars ''/''), Lit ''/'', plus Dot]"

definition tree_pat :: "item list" where
  "tree_pat = [Lit ''https://github.com/'', plus (NotChars ''/''), Lit ''/'', plus (NotChars ''/''),
               Lit ''/tree/'', plus (NotChars ''/''), Lit ''/'', plus Dot]"

definition repo_pat :: "item list" where
  "repo_pat = [Lit ''https://github.com/'', plus (NotChars ''/''), Lit ''/'', plus (NotChars ''/''),
               opt (Chars ''/''), Eol]"

definition raw_host :: string where
  "raw_host = ''https://raw.githubusercontent.com/''"

definition convert_github_to_raw :: "string \<Rightarrow> string option" where
  "convert_github_to_raw url =
     (if contains url ''raw.githubusercontent.com'' then Some url
      else if \<not> contains url ''github.com'' then None
      else
        (case re_match blob_pat url of
           Some (gs, rest) \<Rightarrow>
             Some (raw_host @ group 1 gs @ ''/'' @ group 3 gs @ ''/'' @ group 5 gs @ ''/'' @ group 7 gs)
         | None \<Rightarrow>
             (case re_match tree_pat url of
                Some (gs, rest) \<Rightarrow>
                  Some (raw_host @ group 1 gs @ ''/'' @ group 3 gs @ ''/'' @ group 5 gs @ ''/''
                        @ group 7 gs @ ''/README.md'')
              | None \<Rightarrow>
                  (case re_match repo_pat url of
                     Some (gs, rest) \<Rightarrow>
                       Some (raw_host @ group 1 gs @ ''/'' @ group 3 gs @ ''/master/README.md'')
                   | None \<Rightarrow> None))))"

section \<open>Scraping links: \<open>scrape_additional_links.py\<close>\<close>

text \<open>
  \<open>clean_url\<close>. The test \<open>url.endswith('...')\<close> comes after \<open>url.rstrip('.')\<close>; its branch
  is kept as the source has it.
\<close>

definition clean_url :: "string \<Rightarrow> string" where
  "clean_url url0 =
     (let url = rstrip_chars '';'' url0;
          url = rstrip_chars ''.'' url
      in if endswith url ''...'' then
           (if contains url ''pubs.html#di'' then replace url ''...'' ''stributed-systems/''
            else if contains url ''teaching-con'' then replace url ''...'' ''currency.html''
            else if contains url ''two-phase.htm'' then replace url ''...'' ''l''
            else if contains url ''EWD998'' then replace url ''...'' ''aaa/EWD998.txt''
            else url)
         else url)"

text \<open>
  What is outside the script: the HTTP request (it returns the body and the final URL, or
  raises, also on a status that is not 2xx), the two PDF libraries with the flags that
  say which one was imported, the decoding of bytes to text, and \<open>sanitize_filename\<close>,
  which rests on \<open>urlparse\<close>. Bytes are a \<open>string\<close> too.
\<close>

record env =
  http_get :: "string \<Rightarrow> error + string \<times> string"
  has_pdfplumber :: bool
  has_pypdf2 :: bool
  pdfplumber_open :: "string \<Rightarrow> error + pdf"
  pypdf_open :: "string \<Rightarrow> error + pdf"
  decode :: "string \<Rightarrow> string"
  sanitize_filename :: "string \<Rightarrow> string"
  output_dir :: string

text \<open>\<open>fetch_url\<close>: every exception of the request becomes the pair \<open>(None, None)\<close>.\<close>

definition fetch_url :: "env \<Rightarrow> string \<Rightarrow> string option \<times> string option" where
  "fetch_url e url =
     (case http_get e url of
        Inl err \<Rightarrow> (None, None)
      | Inr (content, final) \<Rightarrow> (Some content, Some final))"

definition is_pdf_content :: "string \<Rightarrow> bool" where
  "is_pdf_content content = (take 4 content = ''%PDF'')"

text \<open>The PyPDF2 loop appends the text of every page.\<close>

fun pypdf_loop :: "string list \<Rightarrow> pdf \<Rightarrow> error + string list" where
  "pypdf_loop text [] = Inr text"
| "pypdf_loop text (Inl e # pages) = Inl e"
| "pypdf_loop text (Inr page_text # pages) = pypdf_loop (text @ [page_text]) pages"

definition extract_pdf_text :: "env \<Rightarrow> string \<Rightarrow> string option" where
  "extract_pdf_text e content =
     (if has_pdfplumber e then
        (case pdfplumber_open e content of
           Inl err \<Rightarrow> None
         | Inr pages \<Rightarrow>
             (case plumber_loop [] pages of
                Inl err \<Rightarrow> None
              | Inr text \<Rightarrow> Some (join [NL, NL] text)))
      else if has_pypdf2 e then
        (case pypdf_open e content of
           Inl err \<Rightarrow> None
         | Inr pages \<Rightarrow>
             (case pypdf_loop [] pages of
                Inl err \<Rightarrow> None
              | Inr text \<Rightarrow> Some (join [NL, NL] text)))
      else None)"

text \<open>An optional text inside an f-string: \<open>None\<close> is written as the word \<open>None\<close>.\<close>

definition fmt :: "string option \<Rightarrow> string" where
  "fmt x = (case x of None \<Rightarrow> ''None'' | Some y \<Rightarrow> y)"

text \<open>The record written for a link: the two URL lines, the separator, a blank line, the text.\<close>

definition record_text :: "string \<Rightarrow> string \<Rightarrow> string \<Rightarrow> string" where
  "record_text url final text =
     ''Source URL: '' @ url @ [NL] @ ''Final URL: '' @ final @ [NL] @ separator80 @ [NL, NL] @ text"

definition link_path :: "env \<Rightarrow> string \<Rightarrow> string \<Rightarrow> string" where
  "link_path e prefix url = output_dir e @ ''/'' @ prefix @ sanitize_filename e url @ ''.txt''"

text \<open>\<open>scrape_link\<close>: the value returned and the files after the call.\<close>

definition scrape_link :: "env \<Rightarrow> string \<Rightarrow> files \<Rightarrow> bool \<times> files" where
  "scrape_link e url0 fs =
     (let url = clean_url url0 in
      case fetch_url e url of
        (None, final) \<Rightarrow> (False, fs)
      | (Some content, final) \<Rightarrow>
          if content = [] then (False, fs)
          else if is_pdf_content content then
            (case extract_pdf_text e content of
               None \<Rightarrow> (False, fs)
             | Some text \<Rightarrow>
                 if text = [] then (False, fs)
                 else (True, fs(link_path e ''pdf_'' url \<mapsto> record_text url (fmt final) text)))
          else
            (True, fs(link_path e ''web_'' url \<mapsto> record_text url (fmt final) (decode e content))))"

record counts =
  successful :: nat
  failed :: nat
  skipped :: nat

definition already_scraped :: "string list" where
  "already_scraped = [''https://cedric.cnam.fr/fichiers/RC474.pdf'', ''https://raft.github.io/raft.pdf'',
                      ''https://lamport.azurewebsites.net/pubs/disk-paxos.pdf;'']"

text \<open>The loop of \<open>main\<close> over the links, with the files and the three counters.\<close>

fun scrape_all :: "env \<Rightarrow> string list \<Rightarrow> files \<times> counts \<Rightarrow> files \<times> counts" where
  "scrape_all e [] st = st"
| "scrape_all e (url # links) (fs, c) =
     (if startswith url ''https://www.youtube.com'' \<or> startswith url ''https://youtu.be''
        then scrape_all e links (fs, c\<lparr>skipped := skipped c + 1\<rparr>)
      else if url \<in> set already_scraped
        then scrape_all e links (fs, c\<lparr>skipped := skipped c + 1\<rparr>)
      else
        (case scrape_link e url fs of
           (True, fs') \<Rightarrow> scrape_all e links (fs', c\<lparr>successful := successful c + 1\<rparr>)
         | (False, fs') \<Rightarrow> scrape_all e links (fs', c\<lparr>failed := failed c + 1\<rparr>)))"

subsection \<open>Example environments\<close>

text \<open>
  Three servers: one that answers every request with an empty body, one that answers with
  a PDF, and one that is down for one URL and answers the others with a page. And a PDF
  library that finds one page without text in every PDF (a scanned document).
\<close>

definition empty_reply :: "string \<Rightarrow> error + string \<times> string" where
  "empty_reply url = Inr ([], url)"

definition pdf_reply :: "string \<Rightarrow> error + string \<times> string" where
  "pdf_reply url = Inr (''%PDF-1.4 scanned'', url)"

definition flaky_reply :: "string \<Rightarrow> error + string \<times> string" where
  "flaky_reply url =
     (if url = ''http://a.example/down'' then Inl (Raised ''ConnectionError'')
      else Inr (''<p>Hello</p>'', url))"

definition scanned_pdf :: "string \<Rightarrow> error + pdf" where
  "scanned_pdf content = Inr [Inr []]"

definition example_env :: "(string \<Rightarrow> error + string \<times> string) \<Rightarrow> env" where
  "example_env server =
     \<lparr>http_get = server, has_pdfplumber = True, has_pypdf2 = False,
      pdfplumber_open = scanned_pdf, pypdf_open = scanned_pdf,
      decode = id, sanitize_filename = id, output_dir = ''external_links''\<rparr>"

section \<open>The aggressive cleaning sweep: \<open>aggressive_clean.py\<close>\<close>

subsection \<open>\<open>ContentExtractor\<close>\<close>

text \<open>
  The class extends the library's \<open>HTMLParser\<close>, which reads the text and calls the
  three handlers below in the order of the document. What the library does is the list
  of these calls: tag and attribute names in lower case, an attribute without a value
  having the value \<open>None\<close>.
\<close>

datatype html_event =
    StartTag string "(string \<times> string option) list"
  | EndTag string
  | Data string

text \<open>The fields of the object; \<open>content_parts\<close> is the list \<open>self.content\<close>.\<close>

record extractor =
  content_parts :: "string list"
  in_script :: bool
  in_style :: bool
  in_nav :: bool
  in_footer :: bool
  in_main :: bool

definition new_extractor :: extractor where
  "new_extractor = \<lparr>content_parts = [], in_script = False, in_style = False,
                      in_nav = False, in_footer = False, in_main = False\<rparr>"

definition skip_tags :: "string list" where
  "skip_tags = [''script'', ''style'', ''noscript'', ''meta'', ''iframe'']"

definition ignore_classes :: "string list" where
  "ignore_classes = [''nav'', ''navbar'', ''menu'', ''sidebar'', ''footer'', ''header'',
                     ''advertisement'', ''ad-'', ''breadcrumb'', ''pagination'',
                     ''comments'', ''widget'', ''related'']"

definition heading_tags :: "string list" where
  "heading_tags = [''h1'', ''h2'', ''h3'', ''h4'', ''h5'', ''h6'']"

text \<open>\<open>str.upper\<close>, on the code points whose capital is one code point below 256; it is applied to heading tags only.\<close>

definition upper_char :: "char \<Rightarrow> char" where
  "upper_char c = (case map_of (zip lowers uppers) c of Some u \<Rightarrow> u | None \<Rightarrow> c)"

definition upper :: "string \<Rightarrow> string" where
  "upper s = map upper_char s"

definition append_part :: "extractor \<Rightarrow> string \<Rightarrow> extractor" where
  "append_part st s = st\<lparr>content_parts := content_parts st @ [s]\<rparr>"

text \<open>\<open>dict(attrs).get(key, '')\<close>: the last pair with the key counts; \<open>None\<close> is the key missing.\<close>

definition attr_get :: "(string \<times> string option) list \<Rightarrow> string \<Rightarrow> string option option" where
  "attr_get attrs key = map_of (rev attrs) key"

text \<open>
  \<open>handle_starttag\<close>. A \<open>class\<close> attribute without a value makes \<open>class_name\<close> the value
  \<open>None\<close>, and \<open>class_name.lower()\<close> raises.
\<close>

definition handle_starttag :: "extractor \<Rightarrow> string \<Rightarrow> (string \<times> string option) list \<Rightarrow> error + extractor" where
  "handle_starttag st0 tag attrs =
     (let st = (if tag \<in> set [''main'', ''article''] then st0\<lparr>in_main := True\<rparr> else st0) in
      if tag \<in> set skip_tags
        then Inr (st\<lparr>in_script := (tag = ''script''), in_style := (tag = ''style'')\<rparr>)
      else
        (case attr_get attrs ''class'' of
           Some None \<Rightarrow> Inl (Raised ''AttributeError'')
         | found \<Rightarrow>
             (let class_name = (case found of Some (Some v) \<Rightarrow> v | _ \<Rightarrow> []) in
              if list_ex (\<lambda>ignore. contains (lower class_name) ignore) ignore_classes then Inr st
              else if tag \<in> set (heading_tags @ [''p'', ''li'', ''code'', ''pre'']) then
                (if startswith tag ''h''
                   then Inr (append_part st ([NL] @ ''### '' @ upper tag @ [NL]))
                 else if tag = ''pre''
                   then Inr (append_part st ([NL] @ [CHR 0x60, CHR 0x60, CHR 0x60] @ [NL]))
                 else if tag = ''code'' then Inr (append_part st [CHR 0x60])
                 else Inr st)
              else Inr st)))"

definition handle_endtag :: "extractor \<Rightarrow> string \<Rightarrow> extractor" where
  "handle_endtag st0 tag =
     (let st1 = (if tag \<in> set [''main'', ''article''] then st0\<lparr>in_main := False\<rparr> else st0);
          st = (if tag \<in> set skip_tags then st1\<lparr>in_script := False, in_style := False\<rparr> else st1)
      in if tag \<in> set heading_tags then append_part st [NL]
         else if tag = ''pre'' then append_part st ([NL] @ [CHR 0x60, CHR 0x60, CHR 0x60] @ [NL])
         else if tag = ''code'' then append_part st [CHR 0x60]
         else if tag = ''p'' then append_part st [NL]
         else if tag \<in> set [''li'', ''tr'', ''td''] then append_part st [NL]
         else st)"

text \<open>\<open>handle_data\<close>; \<open>unescape\<close> is the library's \<open>html.unescape\<close>.\<close>

definition handle_data :: "(string \<Rightarrow> string) \<Rightarrow> extractor \<Rightarrow> string \<Rightarrow> extractor" where
  "handle_data unescape st data =
     (if in_script st \<or> in_style st then st
      else let text = strip (unescape data) in
        if text \<noteq> [] \<and> length text > 2 then append_part st (text @ '' '') else st)"

fun feed :: "(string \<Rightarrow> string) \<Rightarrow> extractor \<Rightarrow> html_event list \<Rightarrow> error + extractor" where
  "feed unescape st [] = Inr st"
| "feed unescape st (StartTag tag attrs # events) =
     (case handle_starttag st tag attrs of
        Inl err \<Rightarrow> Inl err
      | Inr st' \<Rightarrow> feed unescape st' events)"
| "feed unescape st (EndTag tag # events) = feed unescape (handle_endtag st tag) events"
| "feed unescape st (Data data # events) = feed unescape (handle_data unescape st data) events"

text \<open>\<open>\n\s*\n\s*\n+\<close>, used by \<open>get_content\<close>.\<close>

definition newlines3_pat :: "item list" where
  "newlines3_pat = [Lit [NL], star Space, Lit [NL], star Space, plus (Chars [NL])]"

definition get_content :: "extractor \<Rightarrow> string" where
  "get_content st =
     strip (re_sub newlines3_pat (\<lambda>gs. [NL, NL])
             (re_sub spaces_pat (\<lambda>gs. '' '') (concat (content_parts st))))"

subsection \<open>\<open>clean_file\<close> and the sweep\<close>

text \<open>
  The patterns of \<open>clean_file\<close>: the header
  \<open>^Source URL:.*?\n.*?Final URL:.*?\n={10,}\n\<close> (replaced once, so only at the start),
  the three markdown patterns \<open>\[([^\]]+)\]\([^)]+\)\<close>, \<open>\*{1,2}([^*]+)\*{1,2}\<close> and
  \<open>!?\[.*?\]\(.*?\)\<close>, the patterns of the fallback \<open><[^>]+>\<close>, \<open>\[.*?\]\(.*?\)\<close> and \<open>\n+\<close>,
  and \<open>\s+\<close>.
\<close>

definition header_pat :: "item list" where
  "header_pat = [Lit ''Source URL:'', lazy_star Dot, Lit [NL], lazy_star Dot, Lit ''Final URL:'',
                 lazy_star Dot, Lit [NL], Rep (Chars ''='') 10 None True, Lit [NL]]"

definition clean_link_pat :: "item list" where
  "clean_link_pat = [Lit ''['', plus (NotChars '']''), Lit '']('', plus (NotChars '')''), Lit '')'']"

definition emphasis_pat :: "item list" where
  "emphasis_pat = [Rep (Chars ''*'') 1 (Some 2) True, plus (NotChars ''*''), Rep (Chars ''*'') 1 (Some 2) True]"

definition clean_image_pat :: "item list" where
  "clean_image_pat = [opt (Chars ''!''), Lit ''['', lazy_star Dot, Lit '']('', lazy_star Dot, Lit '')'']"

definition tag_pat :: "item list" where
  "tag_pat = [Lit ''<'', plus (NotChars ''>''), Lit ''>'']"

definition any_link_pat :: "item list" where
  "any_link_pat = [Lit ''['', lazy_star Dot, Lit '']('', lazy_star Dot, Lit '')'']"

definition newlines_pat :: "item list" where
  "newlines_pat = [plus (Chars [NL])]"

definition whitespace_pat :: "item list" where
  "whitespace_pat = [plus Space]"

text \<open>The tokenizer of \<open>HTMLParser\<close> and \<open>html.unescape\<close> are outside the script.\<close>

record html_env =
  tokenize :: "string \<Rightarrow> error + html_event list"
  unescape :: "string \<Rightarrow> string"

definition remove_header :: "string \<Rightarrow> string" where
  "remove_header content = (case re_match header_pat content of Some (gs, rest) \<Rightarrow> rest | None \<Rightarrow> content)"

definition remove_markdown :: "string \<Rightarrow> string" where
  "remove_markdown content =
     (if contains content ''**'' \<or> contains content ''[''
      then re_sub clean_image_pat (\<lambda>gs. [])
             (re_sub emphasis_pat (group 1)
               (re_sub clean_link_pat (group 1) content))
      else content)"

text \<open>The \<open>try\<close> block: the extractor, and the substitutions of the \<open>except\<close> branch when it raises.\<close>

definition extract_or_fallback :: "html_env \<Rightarrow> string \<Rightarrow> string" where
  "extract_or_fallback h content =
     (case (case tokenize h content of
              Inl err \<Rightarrow> Inl err
            | Inr events \<Rightarrow> feed (unescape h) new_extractor events) of
        Inr st \<Rightarrow> get_content st
      | Inl err \<Rightarrow>
          re_sub newlines_pat (\<lambda>gs. [NL])
            (re_sub any_link_pat (\<lambda>gs. [])
              (re_sub tag_pat (\<lambda>gs. []) content)))"

definition cleaned_text :: "html_env \<Rightarrow> string \<Rightarrow> string" where
  "cleaned_text h content = extract_or_fallback h (remove_markdown (remove_header content))"

definition text_only :: "string \<Rightarrow> string" where
  "text_only cleaned = re_sub whitespace_pat (\<lambda>gs. '' '') cleaned"

text \<open>The text written: the URL lines that are known and not empty, the separator and a blank line when there is such a line, and the cleaned text.\<close>

definition clean_output :: "metadata \<Rightarrow> string \<Rightarrow> string" where
  "clean_output m cleaned =
     (let output1 = (case source_url m of
                       None \<Rightarrow> []
                     | Some u \<Rightarrow> if u \<noteq> [] then [''Source URL: '' @ u] else []);
          output2 = output1 @ (case final_url m of
                       None \<Rightarrow> []
                     | Some u \<Rightarrow> if u \<noteq> [] then [''Final URL: '' @ u] else []);
          output3 = (if output2 \<noteq> [] then output2 @ [separator80, []] else output2)
      in join [NL] (output3 @ [cleaned]))"

definition clean_file :: "html_env \<Rightarrow> files \<Rightarrow> string \<Rightarrow> error + bool \<times> files" where
  "clean_file h fs file_path =
     (case fs file_path of
        None \<Rightarrow> Inl (Raised ''FileNotFoundError'')
      | Some content \<Rightarrow>
          (let m = read_metadata no_metadata (take 10 (split_nl content));
               cleaned = cleaned_text h content
           in if length (text_only cleaned) < 150 then Inr (False, fs)
              else Inr (True, fs(file_path \<mapsto> clean_output m cleaned))))"

record clean_counts =
  success :: nat
  deleted :: nat

text \<open>The loop of \<open>main\<close>: a file that \<open>clean_file\<close> rejects is unlinked; an exception leaves the file and the counters as they are.\<close>

fun clean_all :: "html_env \<Rightarrow> string list \<Rightarrow> files \<times> clean_counts \<Rightarrow> files \<times> clean_counts" where
  "clean_all h [] st = st"
| "clean_all h (file_path # paths) (fs, c) =
     (case clean_file h fs file_path of
        Inr (True, fs') \<Rightarrow> clean_all h paths (fs', c\<lparr>success := success c + 1\<rparr>)
      | Inr (False, fs') \<Rightarrow> clean_all h paths (fs'(file_path := None), c\<lparr>deleted := deleted c + 1\<rparr>)
      | Inl err \<Rightarrow> clean_all h paths (fs, c))"

subsection \<open>An example page\<close>

text \<open>
  A tokenizer that knows one page,
  \<open><nav>Home About</nav><article><h1>Title</h1><p>Real sentence here.</p></article>\<close>
  after a line break, and takes every other text as one piece of character data; and an
  \<open>unescape\<close> for texts without character references.
\<close>

definition example_page :: string where
  "example_page = ''<nav>Home About</nav><article><h1>Title</h1><p>Real sentence here.</p></article>''"

definition example_events :: "html_event list" where
  "example_events = [Data [NL], StartTag ''nav'' [], Data ''Home About'', EndTag ''nav'',
                     StartTag ''article'' [], StartTag ''h1'' [], Data ''Title'', EndTag ''h1'',
                     StartTag ''p'' [], Data ''Real sentence here.'', EndTag ''p'', EndTag ''article'']"

definition example_tokenize :: "string \<Rightarrow> error + html_event list" where
  "example_tokenize s = (if s = [NL] @ example_page then Inr example_events else Inr [Data s])"

definition example_html :: html_env where
  "example_html = \<lparr>tokenize = example_tokenize, unescape = id\<rparr>"

definition long_text :: string where
  "long_text = ''The Paxos algorithm, when presented in plain English, is very simple. '' @
               ''It is among the simplest and most obvious of distributed algorithms. '' @
               ''At its heart is a consensus algorithm.''"

section \<open>Properties of the PDF page loops\<close>

lemma page_loop_closed:
  "page_loop k acc (map Inr ts) =
     Inr (acc @ concat (map (\<lambda>(n, t). if t = [] then [] else page_marker (Suc n) @ t)
                          (zip [k..<k + length ts] ts)))"
proof (induction ts arbitrary: k acc)
  case Nil
  show ?case by simp
next
  case (Cons t ts)
  have "k < k + length (t # ts)"
    by simp
  then have upt: "[k..<k + length (t # ts)] = k # [Suc k..<Suc k + length ts]"
    by (subst upt_conv_Cons) simp_all
  have step: "page_loop k acc (map Inr (t # ts)) =
      page_loop (Suc k) (if t \<noteq> [] then acc @ page_marker (Suc k) @ t else acc) (map Inr ts)"
    by simp
  show ?case
    unfolding upt step Cons.IH by simp
qed

lemma plumber_loop_closed:
  "plumber_loop acc (map Inr ts) = Inr (acc @ filter (\<lambda>t. t \<noteq> []) ts)"
  by (induction ts arbitrary: acc) simp_all

text \<open>
  C9, as the code has it. The PyMuPDF page loop writes, for the pages in order, the marker
  \<open>--- Page N ---\<close> on a line of its own followed by the page's text, N being the page's
  position in the document, and writes nothing for a page without text, so that the
  other pages keep their numbers. The pdfplumber extractor writes no markers: its output
  is the non-empty page texts joined by a blank line.
\<close>

theorem pdf_page_markers:
  "pymupdf_text (map Inr ts) =
     Inr (concat (map (\<lambda>(n, t). if t = [] then [] else page_marker (Suc n) @ t)
                      (zip [0..<length ts] ts)))
   \<and> extract_text_pdfplumber (map Inr ts) = Some (join [NL, NL] (filter (\<lambda>t. t \<noteq> []) ts))"
  using page_loop_closed [of 0 "[]" ts] plumber_loop_closed [of "[]" ts]
  by (simp add: pymupdf_text_def extract_text_pdfplumber_def)

theorem pdf_page_markers_witness:
  "pymupdf_text [Inr ''Intro'', Inr [], Inr ''Body''] =
     Inr ([NL] @ ''--- Page 1 ---'' @ [NL] @ ''Intro'' @ [NL] @ ''--- Page 3 ---'' @ [NL] @ ''Body'')
   \<and> pymupdf_text [Inr ''Intro'', Inr ''Body''] =
     Inr ([NL] @ ''--- Page 1 ---'' @ [NL] @ ''Intro'' @ [NL] @ ''--- Page 2 ---'' @ [NL] @ ''Body'')"
  using pdf_page_markers [of "[''Intro'', [], ''Body'']"] pdf_page_markers [of "[''Intro'', ''Body'']"]
  by (simp add: page_marker_def digit_char_def upt_conv_Cons)

text \<open>
  C9 as stated fails for the pdfplumber extractor: for a two-page PDF yielding
  \<open>Intro\<close> and \<open>Body\<close> its output is \<open>Intro\n\nBody\<close>, which holds no page marker.
\<close>

theorem pdf_page_markers_counterexample:
  "extract_text_pdfplumber [Inr ''Intro'', Inr ''Body''] = Some (''Intro'' @ [NL, NL] @ ''Body'')
   \<and> \<not> contains (''Intro'' @ [NL, NL] @ ''Body'') ''--- Page 1 ---''"
  by (simp add: extract_text_pdfplumber_def startswith_def)
section \<open>Properties of the substance filter\<close>

lemma filter_body_append: "filter_body (xs @ ys) = filter_body xs @ filter_body ys"
  by (induction xs) (simp_all split: option.splits)

lemma final_filter_body_append:
  "final_filter_body (xs @ ys) = final_filter_body xs @ final_filter_body ys"
  by (induction xs) (simp_all split: option.splits)

lemma filter_body_keeps: "line \<in> set lines \<Longrightarrow> keep_line line = Some kept \<Longrightarrow> kept \<in> set (filter_body lines)"
  by (induction lines) (auto split: option.splits)

lemma final_filter_body_keeps:
  "line \<in> set lines \<Longrightarrow> final_keep_line line = Some kept \<Longrightarrow> kept \<in> set (final_filter_body lines)"
  by (induction lines) (auto split: option.splits)

lemma filter_body_origin:
  "kept \<in> set (filter_body lines) \<Longrightarrow> \<exists>line \<in> set lines. keep_line line = Some kept"
  by (induction lines) (auto split: option.splits)

lemma final_filter_body_origin:
  "kept \<in> set (final_filter_body lines) \<Longrightarrow> \<exists>line \<in> set lines. final_keep_line line = Some kept"
  by (induction lines) (auto split: option.splits)

lemma symbols_pat_hash: "startswith s ''#'' \<Longrightarrow> re_match symbols_pat s = None"
  by (cases s) (simp_all add: symbols_pat_def startswith_def is_space_def)

lemma hash_in_line: "startswith s ''#'' \<Longrightarrow> CHR ''#'' \<in> set s"
  by (cases s) (simp_all add: startswith_def)

lemma keep_line_heading:
  assumes "startswith (strip line) ''#''" and "3 \<le> length (strip line)"
    and "\<not> (list_ex (\<lambda>word. contains (lower (strip line)) word) nav_words \<and> length (strip line) < 30)"
  shows "keep_line line = Some (clean_markdown (strip line))"
proof -
  have ne: "strip line \<noteq> []"
    using assms(2) by auto
  have sym: "re_match symbols_pat (strip line) = None"
    using assms(1) by (rule symbols_pat_hash)
  have hash: "CHR ''#'' \<in> set (strip line)"
    using assms(1) by (rule hash_in_line)
  show ?thesis
    unfolding keep_line_def Let_def using ne sym hash assms(2,3) by simp
qed

lemma final_keep_line_heading:
  assumes "startswith (strip line) ''#''" and "3 \<le> length (strip line)"
  shows "final_keep_line line = Some (strip line)"
proof -
  have "strip line \<noteq> []"
    using assms(2) by auto
  then show ?thesis
    unfolding final_keep_line_def Let_def using assms by simp
qed

lemma keep_line_short: "length (strip line) < 3 \<Longrightarrow> keep_line line = None"
  by (simp add: keep_line_def Let_def)

lemma final_keep_line_short: "length (strip line) < 3 \<Longrightarrow> final_keep_line line = None"
  by (simp add: final_keep_line_def Let_def)

lemma keep_line_long: "keep_line line = Some kept \<Longrightarrow> 3 \<le> length (strip line)"
  by (simp add: keep_line_def Let_def split: if_splits)

lemma final_keep_line_long: "final_keep_line line = Some kept \<Longrightarrow> 3 \<le> length (strip line)"
  by (simp add: final_keep_line_def Let_def split: if_splits)

text \<open>
  C3, as the code has it. A body line whose stripped text starts with \<open>#\<close> and has at
  least three characters is kept by the stricter variant as it is (stripped), whatever
  keyword it holds; the base filter keeps it, after the markdown cleanup, unless it is
  shorter than 30 characters and holds a navigation keyword.
\<close>

theorem heading_kept:
  assumes "line \<in> set lines"
    and "startswith (strip line) ''#''"
    and "3 \<le> length (strip line)"
  shows "strip line \<in> set (final_filter_body lines)
     \<and> (\<not> (list_ex (\<lambda>word. contains (lower (strip line)) word) nav_words
            \<and> length (strip line) < 30)
        \<longrightarrow> clean_markdown (strip line) \<in> set (filter_body lines))"
  using assms final_filter_body_keeps [OF assms(1) final_keep_line_heading]
    filter_body_keeps [OF assms(1) keep_line_heading]
  by blast

theorem heading_kept_witness:
  "''### Sign in to the main menu of this site'' \<in> set (final_filter_body [''  ### Sign in to the main menu of this site'' @ [NL]])
   \<and> ''### Sign in to the main menu of this site'' \<in> set (filter_body [''  ### Sign in to the main menu of this site'' @ [NL]])"
proof -
  let ?line = "''  ### Sign in to the main menu of this site'' @ [NL]"
  have s: "strip ?line = ''### Sign in to the main menu of this site''"
    by (simp add: strip_def lstrip_def rstrip_def is_space_def)
  have c: "clean_markdown ''### Sign in to the main menu of this site'' = ''### Sign in to the main menu of this site''"
    by code_simp
  have h1: "?line \<in> set [?line]"
    by simp
  have h2: "startswith (strip ?line) ''#''"
    unfolding s by (simp add: startswith_def)
  have h3: "3 \<le> length (strip ?line)"
    unfolding s by simp
  show ?thesis
    using heading_kept [OF h1 h2 h3] unfolding s c by simp
qed

text \<open>
  C3 as stated fails: the base filter drops the heading \<open># Menu\<close> (short, with a
  navigation keyword), and both filters drop the heading \<open>##\<close> (fewer than three characters).
\<close>

theorem heading_kept_counterexample:
  "filter_body [''# Menu'' @ [NL]] = []
   \<and> filter_body [''##'' @ [NL]] = []
   \<and> final_filter_body [''##'' @ [NL]] = []"
  by code_simp

text \<open>
  C4, as the code has it. A body line whose stripped text has fewer than three
  characters is dropped by the base filter and by the stricter variant: it adds nothing
  to the kept lines, wherever it stands in the body, and every kept line comes from a
  body line whose stripped text has at least three characters. The kept text itself can
  be shorter, since the markdown cleanup shortens a kept line.
\<close>

theorem short_line_dropped:
  assumes "length (strip line) < 3"
  shows "keep_line line = None \<and> final_keep_line line = None
     \<and> filter_body (before @ line # after) = filter_body (before @ after)
     \<and> final_filter_body (before @ line # after) = final_filter_body (before @ after)
     \<and> (\<forall>kept \<in> set (filter_body lines). \<exists>l \<in> set lines. keep_line l = Some kept \<and> 3 \<le> length (strip l))
     \<and> (\<forall>kept \<in> set (final_filter_body lines). \<exists>l \<in> set lines. final_keep_line l = Some kept \<and> 3 \<le> length (strip l))"
proof -
  have k: "keep_line line = None" and f: "final_keep_line line = None"
    using assms by (simp_all add: keep_line_short final_keep_line_short)
  have a: "filter_body (before @ line # after) = filter_body (before @ after)"
    using k by (simp add: filter_body_append)
  have b: "final_filter_body (before @ line # after) = final_filter_body (before @ after)"
    using f by (simp add: final_filter_body_append)
  have c: "\<forall>kept \<in> set (filter_body lines). \<exists>l \<in> set lines. keep_line l = Some kept \<and> 3 \<le> length (strip l)"
    using filter_body_origin keep_line_long by blast
  have d: "\<forall>kept \<in> set (final_filter_body lines). \<exists>l \<in> set lines. final_keep_line l = Some kept \<and> 3 \<le> length (strip l)"
    using final_filter_body_origin final_keep_line_long by blast
  show ?thesis
    using k f a b c d by blast
qed

theorem short_line_dropped_witness:
  "length (strip ('' ok '' @ [NL])) < 3
   \<and> keep_line ('' ok '' @ [NL]) = None \<and> final_keep_line ('' ok '' @ [NL]) = None
   \<and> filter_body [''A real sentence.'' @ [NL], '' ok '' @ [NL], ''Another one!'' @ [NL]]
       = filter_body [''A real sentence.'' @ [NL], ''Another one!'' @ [NL]]
   \<and> final_filter_body [''A real sentence.'' @ [NL], '' ok '' @ [NL], ''Another one!'' @ [NL]]
       = final_filter_body [''A real sentence.'' @ [NL], ''Another one!'' @ [NL]]"
proof -
  have h: "length (strip ('' ok '' @ [NL])) < 3"
    by (simp add: strip_def lstrip_def rstrip_def is_space_def)
  show ?thesis
    using h short_line_dropped [OF h, of "[''A real sentence.'' @ [NL]]" "[''Another one!'' @ [NL]]" "[]"]
    by simp
qed

text \<open>
  C4 as stated fails: the output can hold the text of a dropped short line. The line \<open>a\<close>
  is dropped, and a longer line whose link text is \<open>a\<close> is kept and cleaned to \<open>a\<close>, in
  the base filter and in the stricter variant.
\<close>

theorem short_line_dropped_counterexample:
  "length (strip (''a'' @ [NL])) < 3
   \<and> filter_body [''a'' @ [NL], ''[a](http://x.example/y)'' @ [NL]] = [''a'']
   \<and> final_filter_body [''a'' @ [NL], ''[a](b c d)'' @ [NL]] = [''a'']"
  by code_simp

text \<open>
  The example of C6: the cleanup of a kept line turns the link of
  \<open>See [here](http://x.com/y) for details.\<close> into its text, in the base filter, in the
  stricter variant's two substitutions and in the polishing pass.
\<close>

lemma link_stripping_example:
  "clean_markdown ''See [here](http://x.com/y) for details.'' = ''See here for details.''
   \<and> keep_line (''See [here](http://x.com/y) for details.'' @ [NL]) = Some ''See here for details.''
   \<and> re_sub image_pat (\<lambda>gs. []) (re_sub link_pat (group 1) ''See [here](http://x.com/y) for details.'')
       = ''See here for details.''
   \<and> polish_body ''See [here](http://x.com/y) for details.'' = ''See here for details.''"
  by code_simp

text \<open>
  C6 at an image. Both filters replace links before images, so the image
  \<open>![logo](http://x.com/l.png)\<close> loses its link part first and its text stays behind an
  exclamation mark; the image pattern then finds nothing to remove. The polishing pass
  removes images first and drops the image.
\<close>

theorem image_syntax_left_behind:
  "clean_markdown ''See ![logo](http://x.com/l.png) now.'' = ''See !logo now.''
   \<and> filter_body [''See ![logo](http://x.com/l.png) now.'' @ [NL]] = [''See !logo now.'']
   \<and> final_filter_body [''See the ![logo](img/l.png) now.'' @ [NL]] = [''See the !logo now.'']
   \<and> polish_body ''See ![logo](http://x.com/l.png) now.'' = ''See now.''"
  by code_simp

section \<open>Properties of \<open>is_real_sentence\<close>\<close>

lemma rep_none_left: "rep c g k 0 (Some 0) acc s = push acc (k s)"
  by (cases s) (simp_all split: option.splits)

lemma re_match_once: "re_match [once c] s = (case s of [] \<Rightarrow> None | x # xs \<Rightarrow> if cmatch c x then Some ([[x]], xs) else None)"
  by (cases s) (simp_all add: rep_none_left push_def)

lemma re_search_once: "re_search [once c] s = list_ex (cmatch c) s"
proof (induction s)
  case Nil
  show ?case unfolding re_search.simps re_match_once by simp
next
  case (Cons x xs)
  show ?case unfolding re_search.simps re_match_once Cons.IH by simp
qed

text \<open>
  The tests of \<open>is_real_sentence\<close>, each on its own: it is false for a line of fewer than
  three words, for a line that holds both \<open>http\<close> and \<open>://\<close>, for a line with more matches
  of the symbol pattern than half its number of words, and for a line that holds one of
  the keywords, whatever its length; it is true exactly for the lines that hold an ASCII
  letter and fail all of these tests.
\<close>

lemma is_real_sentence_cascade:
  "(length (split_ws line) < 3 \<longrightarrow> \<not> is_real_sentence line)
   \<and> (contains line ''http'' \<and> contains line ''://'' \<longrightarrow> \<not> is_real_sentence line)
   \<and> (2 * findall_count symbol_pat line > length (split_ws line) \<longrightarrow> \<not> is_real_sentence line)
   \<and> (list_ex (\<lambda>x. contains (lower line) x) junk_words \<longrightarrow> \<not> is_real_sentence line)
   \<and> (is_real_sentence line \<longleftrightarrow>
        list_ex (cmatch (Or (Range (CHR ''a'') (CHR ''z'')) (Range (CHR ''A'') (CHR ''Z'')))) line
        \<and> 3 \<le> length (split_ws line)
        \<and> \<not> list_ex (\<lambda>x. contains (lower line) x) junk_words
        \<and> \<not> (contains line ''http'' \<and> contains line ''://'')
        \<and> \<not> 2 * findall_count symbol_pat line > length (split_ws line))"
proof -
  have letter: "re_search letter_pat line =
      list_ex (cmatch (Or (Range (CHR ''a'') (CHR ''z'')) (Range (CHR ''A'') (CHR ''Z'')))) line"
    unfolding letter_pat_def by (rule re_search_once)
  have cascade: "\<And>L W K U S.
      (if \<not> L then False else if W then False else if K then False
       else if U then False else if S then False else True)
      = (L \<and> \<not> W \<and> \<not> K \<and> \<not> U \<and> \<not> S)"
    by simp
  have words: "(\<not> length (split_ws line) < 3) = (3 \<le> length (split_ws line))"
    by (simp add: not_less)
  have few: "length (split_ws line) < 3 \<Longrightarrow> \<not> 3 \<le> length (split_ws line)"
    by simp
  show ?thesis
    unfolding is_real_sentence_def Let_def letter cascade words
    using few by blast
qed

lemma is_real_sentence_cascade_examples:
  "\<not> is_real_sentence ''Hi there''
   \<and> \<not> is_real_sentence ''Read more at http://x.com/y today''
   \<and> \<not> is_real_sentence ''a ({}[]] ({}[]]''
   \<and> \<not> is_real_sentence ''Share this long article with all of your friends on Facebook today''
   \<and> is_real_sentence ''This is a real sentence.''"
proof -
  note few = is_real_sentence_cascade [THEN conjunct1]
  note url = is_real_sentence_cascade [THEN conjunct2, THEN conjunct1]
  note sym = is_real_sentence_cascade [THEN conjunct2, THEN conjunct2, THEN conjunct1]
  note key = is_real_sentence_cascade [THEN conjunct2, THEN conjunct2, THEN conjunct2, THEN conjunct1]
  note iff = is_real_sentence_cascade [THEN conjunct2, THEN conjunct2, THEN conjunct2, THEN conjunct2]
  have "length (split_ws ''Hi there'') < 3"
    by code_simp
  with few have a: "\<not> is_real_sentence ''Hi there''"
    by (rule mp)
  have "contains ''Read more at http://x.com/y today'' ''http''
      \<and> contains ''Read more at http://x.com/y today'' ''://''"
    by code_simp
  with url have b: "\<not> is_real_sentence ''Read more at http://x.com/y today''"
    by (rule mp)
  have "2 * findall_count symbol_pat ''a ({}[]] ({}[]]'' > length (split_ws ''a ({}[]] ({}[]]'')"
    by code_simp
  with sym have c: "\<not> is_real_sentence ''a ({}[]] ({}[]]''"
    by (rule mp)
  have "list_ex (\<lambda>x. contains (lower ''Share this long article with all of your friends on Facebook today'') x) junk_words"
    by code_simp
  with key have d: "\<not> is_real_sentence ''Share this long article with all of your friends on Facebook today''"
    by (rule mp)
  have "list_ex (cmatch (Or (Range (CHR ''a'') (CHR ''z'')) (Range (CHR ''A'') (CHR ''Z'')))) ''This is a real sentence.''
        \<and> 3 \<le> length (split_ws ''This is a real sentence.'')
        \<and> \<not> list_ex (\<lambda>x. contains (lower ''This is a real sentence.'') x) junk_words
        \<and> \<not> (contains ''This is a real sentence.'' ''http'' \<and> contains ''This is a real sentence.'' ''://'')
        \<and> \<not> 2 * findall_count symbol_pat ''This is a real sentence.'' > length (split_ws ''This is a real sentence.'')"
    by code_simp
  with iff have e: "is_real_sentence ''This is a real sentence.''"
    by (rule iffD2)
  from a b c d e show ?thesis
    by (intro conjI)
qed

text \<open>
  C7 at a line of brackets. The symbol pattern \<open>[)(]{}\[\]]+\<close> is the class \<open>[)(]\<close> followed
  by the literal text \<open>{}[]\<close> and one or more \<open>]\<close>, so it does not match single brackets:
  the line \<open>f ( x ) [ y ] { z }\<close> has six brackets among its ten words and no match of
  the pattern, and \<open>is_real_sentence\<close> accepts it; the stricter variant keeps the line.
\<close>

theorem symbol_line_accepted:
  "is_real_sentence ''f ( x ) [ y ] { z }''
   \<and> length (split_ws ''f ( x ) [ y ] { z }'') = 10
   \<and> findall_count symbol_pat ''f ( x ) [ y ] { z }'' = 0
   \<and> final_filter_body [''f ( x ) [ y ] { z }'' @ [NL]] = [''f ( x ) [ y ] { z }'']"
  by code_simp

section \<open>The header across the passes\<close>

subsection \<open>Lines and stripping\<close>

lemma split_nl_line: "NL \<notin> set a \<Longrightarrow> split_nl (a @ NL # t) = a # split_nl t"
  by (induction a) (auto split: list.splits)

lemma readlines_line: "NL \<notin> set a \<Longrightarrow> readlines (a @ NL # t) = (a @ [NL]) # readlines t"
  by (induction a) (auto split: list.splits)

lemma first_two_lines_header:
  "NL \<notin> set a \<Longrightarrow> NL \<notin> set b \<Longrightarrow> first_two_lines (a @ NL # b @ NL # t) = [a, b]"
  by (simp add: first_two_lines_def split_nl_line)

lemma rstrip_append:
  assumes "\<exists>c \<in> set ys. \<not> is_space c"
  shows "rstrip (xs @ ys) = xs @ rstrip ys"
proof -
  from assms obtain c where "c \<in> set (rev ys)" and "\<not> is_space c"
    by auto
  then have "dropWhile is_space (rev ys @ rev xs) = dropWhile is_space (rev ys) @ rev xs"
    by (rule dropWhile_append1)
  then show ?thesis
    by (simp add: rstrip_def)
qed

lemma rstrip_space_end: "is_space c \<Longrightarrow> rstrip (s @ [c]) = rstrip s"
  by (simp add: rstrip_def)

lemma set_rstrip: "set (rstrip s) \<subseteq> set s"
  unfolding rstrip_def using set_dropWhileD [of _ is_space "rev s"] by auto

lemma rstrip_id: "s \<noteq> [] \<Longrightarrow> \<not> is_space (last s) \<Longrightarrow> rstrip s = s"
  by (cases s rule: rev_cases) (simp_all add: rstrip_def)

lemma rstrip_prefixed: "u \<noteq> [] \<Longrightarrow> \<not> is_space (last u) \<Longrightarrow> rstrip (p @ u) = p @ u"
  by (rule rstrip_id) simp_all

lemma contains_append_right: "contains b sub \<Longrightarrow> contains (a @ b) sub"
  by (induction a) simp_all

lemma contains_startswith: "startswith s sub \<Longrightarrow> contains s sub"
  by (cases s) (auto simp: startswith_def)

lemma contains_prefix: "contains (sub @ t) sub"
  by (rule contains_startswith) (simp add: startswith_def)

lemma contains_replicate:
  assumes "m \<le> n"
  shows "contains (replicate n c @ t) (replicate m c)"
proof -
  have "replicate n c = replicate m c @ replicate (n - m) c"
    using assms by (simp add: replicate_add [symmetric])
  then show ?thesis
    using contains_prefix [of "replicate m c" "replicate (n - m) c @ t"] by simp
qed

lemma join_first: "x \<in> set y \<Longrightarrow> x \<in> set (join sep (y # ys))"
  by (cases ys) simp_all

lemma startswith_append: "startswith a p \<Longrightarrow> startswith (a @ t) p"
proof -
  assume h: "startswith a p"
  then have "length (take (length p) a) = length p"
    by (simp add: startswith_def)
  then have "length p \<le> length a"
    by simp
  then show ?thesis
    using h by (simp add: startswith_def)
qed

lemma startswith_prefix: "startswith (p @ t) p"
  by (simp add: startswith_def)

lemma replicate_not_startswith:
  "0 < n \<Longrightarrow> c \<noteq> d \<Longrightarrow> \<not> startswith (replicate n c @ t) (d # p)"
  by (cases n) (simp_all add: startswith_def)

subsection \<open>The passes on a record file\<close>

lemma scan_header_record:
  assumes "startswith a ''Source URL:''" and "startswith b ''Final URL:''" and "10 \<le> n"
  shows "scan_header 0 [] ((a @ [NL]) # (b @ [NL]) # (replicate n (CHR ''='') @ [NL]) # rest)
         = ([rstrip a, rstrip b], 3)"
proof -
  have sep: "contains (replicate n (CHR ''='') @ [NL]) separator10"
    unfolding separator10_def using assms(3) by (rule contains_replicate)
  have n: "0 < n"
    using assms(3) by simp
  have not_url: "\<not> startswith (replicate n (CHR ''='') @ [NL]) ''Source URL:''"
    "\<not> startswith (replicate n (CHR ''='') @ [NL]) ''Final URL:''"
    using replicate_not_startswith [OF n] by simp_all
  have r1: "rstrip (a @ [NL]) = rstrip a" and r2: "rstrip (b @ [NL]) = rstrip b"
    by (simp_all add: rstrip_space_end is_space_def)
  have s1: "startswith (a @ [NL]) ''Source URL:''" and s2: "startswith (b @ [NL]) ''Final URL:''"
    using assms(1,2) by (simp_all only: startswith_append)
  have "scan_header 0 [] ((a @ [NL]) # (b @ [NL]) # (replicate n (CHR ''='') @ [NL]) # rest)
      = ([rstrip a, rstrip b], Suc (Suc (Suc 0)))"
    using s1 s2 sep not_url by (simp add: r1 r2)
  then show ?thesis
    by (simp add: numeral_3_eq_3)
qed

lemma header_written:
  assumes "NL \<notin> set a" and "NL \<notin> set b"
  shows "first_two_lines (join [NL] [rstrip a, rstrip b] @ [NL] @ t) = [rstrip a, rstrip b]"
proof -
  have a: "NL \<notin> set (rstrip a)" and b: "NL \<notin> set (rstrip b)"
    using set_rstrip [of a] set_rstrip [of b] assms by auto
  show ?thesis
    using first_two_lines_header [OF a b, of t] by simp
qed

lemma record_readlines:
  assumes "NL \<notin> set a" and "NL \<notin> set b"
  shows "readlines (a @ [NL] @ b @ [NL] @ replicate n (CHR ''='') @ [NL] @ body)
         = (a @ [NL]) # (b @ [NL]) # (replicate n (CHR ''='') @ [NL]) # readlines body"
proof -
  have c: "NL \<notin> set (replicate n (CHR ''=''))"
    by auto
  have "a @ [NL] @ b @ [NL] @ replicate n (CHR ''='') @ [NL] @ body
      = a @ NL # b @ NL # replicate n (CHR ''='') @ NL # body"
    by simp
  then show ?thesis
    using readlines_line [OF assms(1)] readlines_line [OF assms(2)] readlines_line [OF c] by simp
qed

lemma record_split_nl:
  assumes "NL \<notin> set a" and "NL \<notin> set b"
  shows "split_nl (a @ [NL] @ b @ [NL] @ replicate n (CHR ''='') @ [NL] @ body)
         = a # b # replicate n (CHR ''='') # split_nl body"
proof -
  have c: "NL \<notin> set (replicate n (CHR ''=''))"
    by auto
  have "a @ [NL] @ b @ [NL] @ replicate n (CHR ''='') @ [NL] @ body
      = a @ NL # b @ NL # replicate n (CHR ''='') @ NL # body"
    by simp
  then show ?thesis
    using split_nl_line [OF assms(1)] split_nl_line [OF assms(2)] split_nl_line [OF c] by simp
qed

lemma extract_substance_header:
  assumes "startswith a ''Source URL:''" and "startswith b ''Final URL:''"
    and "NL \<notin> set a" and "NL \<notin> set b" and "10 \<le> n"
  shows "first_two_lines (extract_substance
            (a @ [NL] @ b @ [NL] @ replicate n (CHR ''='') @ [NL] @ body)) = [rstrip a, rstrip b]"
  unfolding extract_substance_def record_readlines [OF assms(3,4)] Let_def
    scan_header_record [OF assms(1,2,5)] prod.case
  using header_written [OF assms(3,4)] by simp

lemma final_extract_substance_header:
  assumes "startswith a ''Source URL:''" and "startswith b ''Final URL:''"
    and "NL \<notin> set a" and "NL \<notin> set b" and "10 \<le> n"
  shows "first_two_lines (final_extract_substance
            (a @ [NL] @ b @ [NL] @ replicate n (CHR ''='') @ [NL] @ body)) = [rstrip a, rstrip b]"
  unfolding final_extract_substance_def record_readlines [OF assms(3,4)] Let_def
    scan_header_record [OF assms(1,2,5)] prod.case
  using header_written [OF assms(3,4)] by simp

lemma polish_header_lines_ge: "h \<le> i + 1 \<Longrightarrow> h \<le> polish_header_lines i h lines"
proof (induction lines arbitrary: i h)
  case Nil
  show ?case by simp
next
  case (Cons line lines)
  show ?case
  proof (cases "startswith line ''Source URL:'' \<or> startswith line ''Final URL:''
           \<or> contains line separator10")
    case True
    have "i + 2 \<le> polish_header_lines (i + 1) (i + 2) lines"
      by (rule Cons.IH) simp
    then show ?thesis
      using True Cons.prems by simp
  next
    case False
    have "h \<le> polish_header_lines (i + 1) h lines"
      by (rule Cons.IH) (use Cons.prems in simp)
    then show ?thesis
      using False by simp
  qed
qed

lemma polish_file_header:
  assumes "startswith a ''Source URL:''" and "startswith b ''Final URL:''"
    and "NL \<notin> set a" and "NL \<notin> set b" and "10 \<le> n"
  shows "first_two_lines (polish_file
            (a @ [NL] @ b @ [NL] @ replicate n (CHR ''='') @ [NL] @ body)) = [a, b]"
proof -
  let ?sep = "replicate n (CHR ''='')"
  define H where "H = polish_header_lines 0 0 (a # b # ?sep # split_nl body)"
  have sep: "contains ?sep separator10"
    unfolding separator10_def using contains_replicate [OF assms(5), of "CHR ''=''" "[]"] by simp
  have "H = polish_header_lines (Suc (Suc (Suc 0))) (Suc (Suc (Suc (Suc 0)))) (split_nl body)"
    unfolding H_def using assms(1,2) sep by simp
  then have "4 \<le> H"
    using polish_header_lines_ge [of "Suc (Suc (Suc (Suc 0)))" "Suc (Suc (Suc 0))" "split_nl body"]
    by simp
  then obtain j where "H = 4 + j"
    by (auto simp: le_iff_add)
  then have H: "H = Suc (Suc (Suc (Suc j)))"
    by simp
  define k where "k = Suc j"
  define tail where "tail = join [NL] (?sep # take k (split_nl body))"
  have "?sep \<noteq> []"
    using assms(5) by auto
  then have "CHR ''='' \<in> set ?sep"
    by simp
  then have eq: "CHR ''='' \<in> set tail"
    unfolding tail_def by (rule join_first)
  have meta: "join [NL] (take H (a # b # ?sep # split_nl body)) = a @ NL # b @ NL # tail"
    unfolding H tail_def k_def by simp
  have "\<not> is_space (CHR ''='')"
    by (simp add: is_space_def)
  with eq have "\<exists>c \<in> set tail. \<not> is_space c"
    by blast
  then have "rstrip ((a @ NL # b @ [NL]) @ tail) = (a @ NL # b @ [NL]) @ rstrip tail"
    by (rule rstrip_append)
  then have strip: "rstrip (a @ NL # b @ NL # tail) = a @ NL # b @ NL # rstrip tail"
    by simp
  show ?thesis
    unfolding polish_file_def record_split_nl [OF assms(3,4)] Let_def H_def [symmetric] meta strip
    using first_two_lines_header [OF assms(3,4)] by simp
qed

lemma replace_go_skip: "replace_go old new (length xs) (xs @ t) = replace_go old new 0 t"
  by (induction xs) simp_all

lemma replace_go_prefix:
  assumes "old \<noteq> []"
  shows "replace_go old new 0 (old @ t) = new @ replace_go old new 0 t"
proof -
  from assms obtain c cs where old: "old = c # cs"
    by (cases old) auto
  have "replace_go old new 0 (c # (cs @ t)) = new @ replace_go old new (length cs) (cs @ t)"
    using startswith_prefix [of old t] by (simp add: old)
  then show ?thesis
    by (simp add: old replace_go_skip)
qed

lemma replace_go_absent: "\<not> contains s old \<Longrightarrow> replace_go old new 0 s = s"
  by (induction s) simp_all

lemma strip_after_prefix:
  assumes "p \<noteq> []" and "\<not> contains u p" and "strip u = u" and "hd p \<noteq> CHR '' ''"
  shows "strip (replace (p @ CHR '' '' # u) p []) = u"
proof -
  have "\<not> startswith (CHR '' '' # u) p"
    using assms(1,4) by (cases p) (auto simp: startswith_def)
  then have "\<not> contains (CHR '' '' # u) p"
    using assms(2) by simp
  then have "replace (p @ CHR '' '' # u) p [] = CHR '' '' # u"
    unfolding replace_def using replace_go_prefix [OF assms(1), of "[]"] replace_go_absent by simp
  moreover have "strip (CHR '' '' # u) = strip u"
    by (simp add: strip_def lstrip_def is_space_def)
  ultimately show ?thesis
    using assms(3) by simp
qed

lemma read_metadata_skip:
  "\<forall>l \<in> set ls. \<not> startswith l ''Source URL:'' \<and> \<not> startswith l ''Final URL:''
   \<Longrightarrow> read_metadata m ls = m"
  by (induction ls arbitrary: m) simp_all

lemma extract_metadata_record:
  assumes "NL \<notin> set u" and "NL \<notin> set v"
    and "strip u = u" and "strip v = v"
    and "\<not> contains u ''Source URL:''" and "\<not> contains v ''Final URL:''"
    and "\<forall>l \<in> set (take 2 (split_nl body)).
           \<not> startswith l ''Source URL:'' \<and> \<not> startswith l ''Final URL:''"
  shows "extract_metadata ((''Source URL: '' @ u) @ [NL] @ (''Final URL: '' @ v) @ [NL]
            @ replicate (Suc n) (CHR ''='') @ [NL] @ body)
         = \<lparr>source_url = Some u, final_url = Some v\<rparr>"
proof -
  let ?a = "''Source URL: '' @ u" and ?b = "''Final URL: '' @ v"
  have a: "NL \<notin> set ?a" and b: "NL \<notin> set ?b"
    using assms(1,2) by auto
  have su: "strip (replace ?a ''Source URL:'' []) = u"
    using strip_after_prefix [of "''Source URL:''" u] assms(3,5) by simp
  have fu: "strip (replace ?b ''Final URL:'' []) = v"
    using strip_after_prefix [of "''Final URL:''" v] assms(4,6) by simp
  have five: "take 5 (?a # ?b # replicate (Suc n) (CHR ''='') # split_nl body)
      = ?a # ?b # replicate (Suc n) (CHR ''='') # take 2 (split_nl body)"
    by (simp add: numeral_eq_Suc)
  have sa: "startswith ?a ''Source URL:''" and sb: "startswith ?b ''Final URL:''"
    and nb: "\<not> startswith ?b ''Source URL:''"
    and ns: "\<not> startswith (replicate (Suc n) (CHR ''='')) ''Source URL:''"
      "\<not> startswith (replicate (Suc n) (CHR ''='')) ''Final URL:''"
    by (simp_all add: startswith_def)
  have "read_metadata no_metadata (?a # ?b # replicate (Suc n) (CHR ''='') # take 2 (split_nl body))
      = read_metadata \<lparr>source_url = Some u, final_url = Some v\<rparr> (take 2 (split_nl body))"
    unfolding read_metadata.simps using sa sb nb ns su fu by (simp add: no_metadata_def)
  then show ?thesis
    unfolding extract_metadata_def record_split_nl [OF a b] five
    using read_metadata_skip [OF assms(7)] by simp
qed

lemma process_file_header:
  assumes "NL \<notin> set u" and "NL \<notin> set v" and "10 \<le> n"
    and "strip u = u" and "strip v = v"
    and "\<not> contains u ''Source URL:''" and "\<not> contains v ''Final URL:''"
    and "\<forall>l \<in> set (take 2 (split_nl body)).
           \<not> startswith l ''Source URL:'' \<and> \<not> startswith l ''Final URL:''"
  shows "first_two_lines (process_file convert ((''Source URL: '' @ u) @ [NL] @ (''Final URL: '' @ v) @ [NL]
            @ replicate n (CHR ''='') @ [NL] @ body))
         = [''Source URL: '' @ u, ''Final URL: '' @ v]"
proof -
  from assms(3) obtain m where n: "n = Suc m"
    by (cases n) auto
  have a: "NL \<notin> set (''Source URL: '' @ u)" and b: "NL \<notin> set (''Final URL: '' @ v)"
    using assms(1,2) by auto
  show ?thesis
    unfolding process_file_def Let_def n
      extract_metadata_record [OF assms(1,2,4,5,6,7,8)]
    using first_two_lines_header [OF a b] by simp
qed

text \<open>
  C1, as the code has it. Take a record file whose first lines are \<open>Source URL: u\<close> and
  \<open>Final URL: v\<close>, followed by a line of at least ten \<open>=\<close> signs, with any body.
  \<^item> \<open>polish_file\<close> writes back a file with the same first two lines, for every body.
  \<^item> \<open>extract_substance\<close>, in the base filter and in the stricter variant, writes back
    the two lines stripped of trailing whitespace, for every body: the same lines when \<open>u\<close>
    and \<open>v\<close> are not empty and do not end in whitespace.
  \<^item> \<open>process_file\<close> writes back the same two lines when \<open>u\<close> and \<open>v\<close> have no whitespace at
    either end and do not hold their own prefix, and neither of the first two lines after
    the separator starts with a URL prefix.
\<close>

theorem header_preserved:
  assumes "NL \<notin> set u" and "NL \<notin> set v" and "10 \<le> n"
    and "fs file_path = Some (''Source URL: '' @ u @ [NL] @ ''Final URL: '' @ v @ [NL]
            @ replicate n (CHR ''='') @ [NL] @ body)"
  shows "(\<exists>out. rewrite_file polish_file fs file_path = Inr (fs(file_path \<mapsto> out))
            \<and> first_two_lines out = [''Source URL: '' @ u, ''Final URL: '' @ v])
     \<and> (\<exists>out. rewrite_file extract_substance fs file_path = Inr (fs(file_path \<mapsto> out))
            \<and> first_two_lines out = [rstrip (''Source URL: '' @ u), rstrip (''Final URL: '' @ v)])
     \<and> (\<exists>out. rewrite_file final_extract_substance fs file_path = Inr (fs(file_path \<mapsto> out))
            \<and> first_two_lines out = [rstrip (''Source URL: '' @ u), rstrip (''Final URL: '' @ v)])
     \<and> (u \<noteq> [] \<and> \<not> is_space (last u) \<and> v \<noteq> [] \<and> \<not> is_space (last v) \<longrightarrow>
          rstrip (''Source URL: '' @ u) = ''Source URL: '' @ u
          \<and> rstrip (''Final URL: '' @ v) = ''Final URL: '' @ v)
     \<and> (strip u = u \<and> strip v = v
          \<and> \<not> contains u ''Source URL:'' \<and> \<not> contains v ''Final URL:''
          \<and> (\<forall>l \<in> set (take 2 (split_nl body)).
                \<not> startswith l ''Source URL:'' \<and> \<not> startswith l ''Final URL:'') \<longrightarrow>
          (\<exists>out. rewrite_file (process_file convert) fs file_path = Inr (fs(file_path \<mapsto> out))
            \<and> first_two_lines out = [''Source URL: '' @ u, ''Final URL: '' @ v]))"
proof -
  let ?a = "''Source URL: '' @ u" and ?b = "''Final URL: '' @ v"
  let ?content = "?a @ [NL] @ ?b @ [NL] @ replicate n (CHR ''='') @ [NL] @ body"
  have stored: "fs file_path = Some ?content"
    using assms(4) by simp
  have a: "NL \<notin> set ?a" and b: "NL \<notin> set ?b"
    using assms(1,2) by auto
  have sa: "startswith ?a ''Source URL:''" and sb: "startswith ?b ''Final URL:''"
    by (simp_all add: startswith_def)
  have written: "rewrite_file pass fs file_path = Inr (fs(file_path \<mapsto> pass ?content))" for pass
    unfolding rewrite_file_def stored by simp
  have p1: "first_two_lines (polish_file ?content) = [?a, ?b]"
    using sa sb a b assms(3) by (rule polish_file_header)
  have p2: "first_two_lines (extract_substance ?content) = [rstrip ?a, rstrip ?b]"
    using sa sb a b assms(3) by (rule extract_substance_header)
  have p3: "first_two_lines (final_extract_substance ?content) = [rstrip ?a, rstrip ?b]"
    using sa sb a b assms(3) by (rule final_extract_substance_header)
  have p4: "rstrip ?a = ?a \<and> rstrip ?b = ?b"
    if "u \<noteq> [] \<and> \<not> is_space (last u) \<and> v \<noteq> [] \<and> \<not> is_space (last v)"
    using that rstrip_prefixed [of u "''Source URL: ''"] rstrip_prefixed [of v "''Final URL: ''"]
    by simp
  have p5: "first_two_lines (process_file convert ?content) = [?a, ?b]"
    if "strip u = u \<and> strip v = v
        \<and> \<not> contains u ''Source URL:'' \<and> \<not> contains v ''Final URL:''
        \<and> (\<forall>l \<in> set (take 2 (split_nl body)).
              \<not> startswith l ''Source URL:'' \<and> \<not> startswith l ''Final URL:'')"
    using that process_file_header [OF assms(1,2,3), of body convert] by blast
  show ?thesis
    using written p1 p2 p3 p4 p5 by blast
qed

theorem header_preserved_witness:
  "first_two_lines (polish_file (''Source URL: http://a.example/x'' @ [NL] @ ''Final URL: http://a.example/y''
       @ [NL] @ replicate 12 (CHR ''='') @ [NL, NL] @ ''Final URL: http://c.example/z'' @ [NL]
       @ replicate 12 (CHR ''='') @ [NL] @ ''Text.''))
     = [''Source URL: http://a.example/x'', ''Final URL: http://a.example/y'']
   \<and> first_two_lines (extract_substance (''Source URL: http://a.example/x'' @ [NL] @ ''Final URL: http://a.example/y''
       @ [NL] @ replicate 12 (CHR ''='') @ [NL, NL] @ ''Final URL: http://c.example/z'' @ [NL]
       @ replicate 12 (CHR ''='') @ [NL] @ ''Text.''))
     = [''Source URL: http://a.example/x'', ''Final URL: http://a.example/y'']
   \<and> first_two_lines (process_file id (''Source URL: http://a.example/x'' @ [NL] @ ''Final URL: http://a.example/y''
       @ [NL] @ replicate 12 (CHR ''='') @ [NL, NL] @ ''Text.''))
     = [''Source URL: http://a.example/x'', ''Final URL: http://a.example/y'']"
proof -
  let ?u = "''http://a.example/x''" and ?v = "''http://a.example/y''"
  let ?body = "[NL] @ ''Final URL: http://c.example/z'' @ [NL] @ replicate 12 (CHR ''='') @ [NL] @ ''Text.''"
  let ?content = "''Source URL: '' @ ?u @ [NL] @ ''Final URL: '' @ ?v @ [NL]
            @ replicate 12 (CHR ''='') @ [NL] @ ?body"
  let ?fs = "[''web_x.txt'' \<mapsto> ?content]"
  have h1: "NL \<notin> set ?u" and h2: "NL \<notin> set ?v" and h3: "(10::nat) \<le> 12"
    and h4: "?fs ''web_x.txt'' = Some ?content"
    by simp_all
  have last: "?u \<noteq> [] \<and> \<not> is_space (last ?u) \<and> ?v \<noteq> [] \<and> \<not> is_space (last ?v)"
    by (simp add: is_space_def)
  have w: "rewrite_file pass ?fs ''web_x.txt'' = Inr (?fs(''web_x.txt'' \<mapsto> pass ?content))" for pass
    by (simp add: rewrite_file_def)
  note t = header_preserved [of ?u ?v 12 ?fs "''web_x.txt''" ?body id, OF h1 h2 h3 h4]
  from t [THEN conjunct1] have "first_two_lines (polish_file ?content) = [''Source URL: '' @ ?u, ''Final URL: '' @ ?v]"
    unfolding w by (metis fun_upd_same option.inject sum.inject(2))
  moreover from t [THEN conjunct2, THEN conjunct1]
  have "first_two_lines (extract_substance ?content) = [rstrip (''Source URL: '' @ ?u), rstrip (''Final URL: '' @ ?v)]"
    unfolding w by (metis fun_upd_same option.inject sum.inject(2))
  moreover from t [THEN conjunct2, THEN conjunct2, THEN conjunct2, THEN conjunct1] last
  have "rstrip (''Source URL: '' @ ?u) = ''Source URL: '' @ ?u \<and> rstrip (''Final URL: '' @ ?v) = ''Final URL: '' @ ?v"
    by (rule mp)
  moreover have "first_two_lines (process_file id (''Source URL: '' @ ?u @ [NL] @ ''Final URL: '' @ ?v @ [NL]
            @ replicate 12 (CHR ''='') @ [NL] @ [NL] @ ''Text.''))
      = [''Source URL: '' @ ?u, ''Final URL: '' @ ?v]"
  proof -
    let ?body2 = "[NL] @ ''Text.''"
    let ?content2 = "''Source URL: '' @ ?u @ [NL] @ ''Final URL: '' @ ?v @ [NL]
            @ replicate 12 (CHR ''='') @ [NL] @ ?body2"
    let ?fs2 = "[''web_y.txt'' \<mapsto> ?content2]"
    have h5: "?fs2 ''web_y.txt'' = Some ?content2"
      by simp
    have w2: "rewrite_file pass ?fs2 ''web_y.txt'' = Inr (?fs2(''web_y.txt'' \<mapsto> pass ?content2))" for pass
      by (simp add: rewrite_file_def)
    have c1: "strip ?u = ?u" and c2: "strip ?v = ?v"
      and c3: "\<not> contains ?u ''Source URL:''" and c4: "\<not> contains ?v ''Final URL:''"
      and c5: "\<forall>l \<in> set (take 2 (split_nl ?body2)).
                \<not> startswith l ''Source URL:'' \<and> \<not> startswith l ''Final URL:''"
      by code_simp+
    from c1 c2 c3 c4 c5
    have pre: "strip ?u = ?u \<and> strip ?v = ?v
          \<and> \<not> contains ?u ''Source URL:'' \<and> \<not> contains ?v ''Final URL:''
          \<and> (\<forall>l \<in> set (take 2 (split_nl ?body2)).
                \<not> startswith l ''Source URL:'' \<and> \<not> startswith l ''Final URL:'')"
      by (intro conjI)
    note t2 = header_preserved [of ?u ?v 12 ?fs2 "''web_y.txt''" ?body2 id, OF h1 h2 h3 h5]
    from t2 [THEN conjunct2, THEN conjunct2, THEN conjunct2, THEN conjunct2] pre
    have "\<exists>out. rewrite_file (process_file id) ?fs2 ''web_y.txt'' = Inr (?fs2(''web_y.txt'' \<mapsto> out))
            \<and> first_two_lines out = [''Source URL: '' @ ?u, ''Final URL: '' @ ?v]"
      by (rule mp)
    then show ?thesis
      unfolding w2 by (metis fun_upd_same option.inject sum.inject(2))
  qed
  ultimately show ?thesis
    by simp
qed

text \<open>
  C1 as stated fails. \<open>process_file\<close> reads the URLs from the first five lines, so a body
  line that starts with \<open>Source URL:\<close> right after the separator replaces the source URL
  of the header; and \<open>extract_substance\<close> strips the header lines on the right, so a URL
  that ends in a space loses it.
\<close>

theorem header_preserved_counterexample:
  "first_two_lines (process_file id (''Source URL: http://a.example/x'' @ [NL]
       @ ''Final URL: http://a.example/y'' @ [NL] @ separator80 @ [NL, NL]
       @ ''Source URL: http://b.example/z'' @ [NL]))
     = [''Source URL: http://b.example/z'', ''Final URL: http://a.example/y'']
   \<and> first_two_lines (extract_substance (''Source URL: http://a.example/x '' @ [NL]
       @ ''Final URL: http://a.example/y'' @ [NL] @ separator80 @ [NL, NL] @ ''Text.'' @ [NL]))
     = [''Source URL: http://a.example/x'', ''Final URL: http://a.example/y'']"
  by code_simp

section \<open>Properties of \<open>convert_github_to_raw\<close>\<close>

subsection \<open>Greedy repetition\<close>

text \<open>
  A greedy repetition over a run \<open>a\<close> of characters of its class, when the class does not
  go on after \<open>a\<close>: if the rest of the pattern matches right after \<open>a\<close>, the repetition takes
  the whole of \<open>a\<close>; if the rest of the pattern matches after no part of \<open>a\<close>, there is no match.
\<close>

lemma rep_greedy_all:
  assumes "list_all (cmatch c) a" and "t = [] \<or> \<not> cmatch c (hd t)"
    and "lo \<le> length a" and "k t = Some r"
  shows "rep c True k lo None acc (a @ t) = push (acc @ a) (Some r)"
  using assms(1,3)
proof (induction a arbitrary: lo acc)
  case Nil
  then show ?case
    using assms(2,4) by (cases t) (simp_all add: push_def)
next
  case (Cons x a)
  have "rep c True k (lo - 1) None (acc @ [x]) (a @ t) = push ((acc @ [x]) @ a) (Some r)"
    using Cons.prems by (intro Cons.IH) auto
  then show ?case
    using Cons.prems by (simp add: push_def split: prod.splits)
qed

lemma rep_greedy_none:
  assumes "t = [] \<or> \<not> cmatch c (hd t)" and "\<forall>i \<le> length a. k (drop i a @ t) = None"
  shows "rep c True k lo hi acc (a @ t) = None"
  using assms(2)
proof (induction a arbitrary: lo hi acc)
  case Nil
  then show ?case
    using assms(1) by (cases t) (simp_all add: push_def)
next
  case (Cons x a)
  have "\<forall>i \<le> length a. k (drop i a @ t) = None"
  proof (intro allI impI)
    fix i assume "i \<le> length a"
    then show "k (drop i a @ t) = None"
      using Cons.prems [rule_format, of "Suc i"] by simp
  qed
  then have more: "rep c True k lo' hi' acc' (a @ t) = None" for lo' hi' acc'
    by (rule Cons.IH)
  have "k ((x # a) @ t) = None"
    using Cons.prems [rule_format, of 0] by simp
  then show ?case
    by (simp add: more push_def)
qed

lemma lit_fails: "\<not> startswith s l \<Longrightarrow> step (Lit l) k s = None"
  by simp

lemma lit_matches: "step (Lit l) k (l @ s) = push l (k s)"
  by (simp add: startswith_def)

lemma slash_fails_inside:
  assumes "CHR ''/'' \<notin> set a" and "i < length a"
  shows "step (Lit (CHR ''/'' # l)) k (drop i a @ t) = None"
proof -
  from assms(2) obtain x xs where d: "drop i a = x # xs"
    by (cases "drop i a") auto
  then have "x \<in> set a"
    by (metis in_set_dropD list.set_intros(1))
  then have "x \<noteq> CHR ''/''"
    using assms(1) by auto
  then show ?thesis
    by (simp add: d startswith_def)
qed

text \<open>A segment \<open>[^/]+\<close> followed by a literal that starts with a slash.\<close>

lemma segment_matches:
  assumes "a \<noteq> []" and "CHR ''/'' \<notin> set a" and "k t = Some r"
  shows "step (plus (NotChars ''/'')) (step (Lit (CHR ''/'' # l)) k) (a @ (CHR ''/'' # l) @ t)
         = push a (push (CHR ''/'' # l) (Some r))"
proof -
  have all: "list_all (cmatch (NotChars ''/'')) a"
    using assms(2) by (auto simp: list_all_iff)
  have "1 \<le> length a"
    using assms(1) by (cases a) auto
  moreover have "step (Lit (CHR ''/'' # l)) k ((CHR ''/'' # l) @ t) = push (CHR ''/'' # l) (Some r)"
    unfolding lit_matches assms(3) ..
  then obtain r' where "step (Lit (CHR ''/'' # l)) k ((CHR ''/'' # l) @ t) = Some r'"
    and "push (CHR ''/'' # l) (Some r) = Some r'"
    by (cases r) (simp add: push_def)
  ultimately show ?thesis
    using rep_greedy_all [OF all, of "(CHR ''/'' # l) @ t" 1 "step (Lit (CHR ''/'' # l)) k" r' "[]"]
    by simp
qed

lemma segment_fails:
  assumes "CHR ''/'' \<notin> set a" and "t = [] \<or> hd t = CHR ''/''"
    and "step (Lit (CHR ''/'' # l)) k t = None"
  shows "step (plus (NotChars ''/'')) (step (Lit (CHR ''/'' # l)) k) (a @ t) = None"
proof -
  have "\<forall>i \<le> length a. step (Lit (CHR ''/'' # l)) k (drop i a @ t) = None"
  proof (intro allI impI)
    fix i assume "i \<le> length a"
    then consider "i < length a" | "i = length a"
      by linarith
    then show "step (Lit (CHR ''/'' # l)) k (drop i a @ t) = None"
    proof cases
      case 1
      then show ?thesis
        using assms(1) by (rule slash_fails_inside [rotated])
    next
      case 2
      then show ?thesis
        using assms(3) by simp
    qed
  qed
  moreover have "t = [] \<or> \<not> cmatch (NotChars ''/'') (hd t)"
    using assms(2) by auto
  ultimately show ?thesis
    unfolding step.simps by (intro rep_greedy_none)
qed

lemma path_matches:
  assumes "p \<noteq> []" and "NL \<notin> set p"
  shows "step (plus Dot) (re_match []) p = Some ([p], [])"
proof -
  have all: "list_all (cmatch Dot) p"
    using assms(2) by (auto simp: list_all_iff)
  have "1 \<le> length p"
    using assms(1) by (cases p) auto
  then show ?thesis
    using rep_greedy_all [OF all, of "[]" 1 "re_match []" "([], [])" "[]"]
    by (simp add: push_def)
qed

subsection \<open>The three patterns\<close>

lemma github_url_contains: "contains (''https://github.com/'' @ s) ''github.com''"
proof -
  have "contains (''https://'' @ (''github.com'' @ (CHR ''/'' # s))) ''github.com''"
    by (intro contains_append_right contains_prefix)
  then show ?thesis
    by simp
qed

lemma file_pat_matches:
  assumes "user \<noteq> []" and "CHR ''/'' \<notin> set user"
    and "repo \<noteq> []" and "CHR ''/'' \<notin> set repo"
    and "branch \<noteq> []" and "CHR ''/'' \<notin> set branch"
    and "path \<noteq> []" and "NL \<notin> set path"
  shows "re_match [Lit ''https://github.com/'', plus (NotChars ''/''), Lit ''/'', plus (NotChars ''/''),
               Lit (CHR ''/'' # kind), plus (NotChars ''/''), Lit ''/'', plus Dot]
           (''https://github.com/'' @ user @ ''/'' @ repo @ (CHR ''/'' # kind) @ branch @ ''/'' @ path)
         = Some ([''https://github.com/'', user, ''/'', repo, CHR ''/'' # kind, branch, ''/'', path], [])"
proof -
  define k7 where "k7 = step (plus Dot) (re_match [])"
  define k5 where "k5 = step (plus (NotChars ''/'')) (step (Lit ''/'') k7)"
  define k3 where "k3 = step (plus (NotChars ''/'')) (step (Lit (CHR ''/'' # kind)) k5)"
  define k1 where "k1 = step (plus (NotChars ''/'')) (step (Lit ''/'') k3)"
  have m7: "k7 path = Some ([path], [])"
    unfolding k7_def using assms(7,8) by (rule path_matches)
  have m5: "k5 (branch @ ''/'' @ path) = Some ([branch, ''/'', path], [])"
    unfolding k5_def using segment_matches [where a = branch and k = k7 and t = path and l = "[]", OF assms(5,6) m7]
    by (simp add: push_def)
  have m3: "k3 (repo @ (CHR ''/'' # kind) @ branch @ ''/'' @ path)
      = Some ([repo, CHR ''/'' # kind, branch, ''/'', path], [])"
    unfolding k3_def using segment_matches [where a = repo and k = k5 and t = "branch @ ''/'' @ path" and l = kind, OF assms(3,4) m5]
    by (simp add: push_def)
  have m1: "k1 (user @ ''/'' @ repo @ (CHR ''/'' # kind) @ branch @ ''/'' @ path)
      = Some ([user, ''/'', repo, CHR ''/'' # kind, branch, ''/'', path], [])"
    unfolding k1_def using segment_matches [where a = user and k = k3 and l = "[]", OF assms(1,2) m3]
    by (simp add: push_def)
  have "re_match [Lit ''https://github.com/'', plus (NotChars ''/''), Lit ''/'', plus (NotChars ''/''),
               Lit (CHR ''/'' # kind), plus (NotChars ''/''), Lit ''/'', plus Dot]
      = step (Lit ''https://github.com/'') k1"
    unfolding k1_def k3_def k5_def k7_def by simp
  then show ?thesis
    using lit_matches [of "''https://github.com/''" k1] m1 by (simp add: push_def)
qed

lemma file_pat_fails:
  assumes "CHR ''/'' \<notin> set user" and "CHR ''/'' \<notin> set repo"
    and "t = [] \<or> hd t = CHR ''/''" and "\<not> startswith t (CHR ''/'' # kind)"
  shows "re_match [Lit ''https://github.com/'', plus (NotChars ''/''), Lit ''/'', plus (NotChars ''/''),
               Lit (CHR ''/'' # kind), plus (NotChars ''/''), Lit ''/'', plus Dot]
           (''https://github.com/'' @ user @ ''/'' @ repo @ t) = None"
proof -
  define k5 where "k5 = step (plus (NotChars ''/'')) (step (Lit ''/'') (step (plus Dot) (re_match [])))"
  define k3 where "k3 = step (plus (NotChars ''/'')) (step (Lit (CHR ''/'' # kind)) k5)"
  define k1 where "k1 = step (plus (NotChars ''/'')) (step (Lit ''/'') k3)"
  have "step (Lit (CHR ''/'' # kind)) k5 t = None"
    using assms(4) by (rule lit_fails)
  then have f3: "k3 (repo @ t) = None"
    unfolding k3_def using assms(2,3) by (intro segment_fails)
  have "step (Lit ''/'') k3 (''/'' @ repo @ t) = None"
    unfolding lit_matches f3 by (simp add: push_def)
  then have f1: "k1 (user @ ''/'' @ repo @ t) = None"
    unfolding k1_def using assms(1) by (intro segment_fails) simp_all
  have "re_match [Lit ''https://github.com/'', plus (NotChars ''/''), Lit ''/'', plus (NotChars ''/''),
               Lit (CHR ''/'' # kind), plus (NotChars ''/''), Lit ''/'', plus Dot]
      = step (Lit ''https://github.com/'') k1"
    unfolding k1_def k3_def k5_def by simp
  then show ?thesis
    using lit_matches [of "''https://github.com/''" k1] f1 by (simp add: push_def)
qed

lemma repo_pat_matches:
  assumes "user \<noteq> []" and "CHR ''/'' \<notin> set user"
    and "repo \<noteq> []" and "CHR ''/'' \<notin> set repo"
  shows "re_match repo_pat (''https://github.com/'' @ user @ ''/'' @ repo)
         = Some ([''https://github.com/'', user, ''/'', repo, [], []], [])"
proof -
  define k4 where "k4 = step (opt (Chars ''/'')) (step Eol (re_match []))"
  define k3 where "k3 = step (plus (NotChars ''/'')) k4"
  define k1 where "k1 = step (plus (NotChars ''/'')) (step (Lit ''/'') k3)"
  have m4: "k4 [] = Some ([[], []], [])"
    unfolding k4_def by (simp add: push_def)
  have all: "list_all (cmatch (NotChars ''/'')) repo"
    using assms(4) by (auto simp: list_all_iff)
  have "1 \<le> length repo"
    using assms(3) by (cases repo) auto
  then have m3: "k3 repo = Some ([repo, [], []], [])"
    unfolding k3_def using rep_greedy_all [OF all, of "[]" 1 k4 "([[], []], [])" "[]"] m4
    by (simp add: push_def)
  have m1: "k1 (user @ ''/'' @ repo) = Some ([user, ''/'', repo, [], []], [])"
    unfolding k1_def using segment_matches [where a = user and k = k3 and l = "[]", OF assms(1,2) m3]
    by (simp add: push_def)
  have "re_match repo_pat = step (Lit ''https://github.com/'') k1"
    unfolding repo_pat_def k1_def k3_def k4_def by simp
  then show ?thesis
    using lit_matches [of "''https://github.com/''" k1] m1 by (simp add: push_def)
qed

text \<open>
  C10, as the code has it. \<open>convert_github_to_raw\<close> tests its cases in the order in which
  the claim lists them. A URL that holds \<open>raw.githubusercontent.com\<close> is returned as it
  is. Of the other URLs, one that does not hold \<open>github.com\<close> gives \<open>None\<close>; a blob URL
  \<open>https://github.com/user/repo/blob/branch/path\<close> gives
  \<open>https://raw.githubusercontent.com/user/repo/branch/path\<close>; a tree URL
  \<open>https://github.com/user/repo/tree/branch/path\<close> gives the same with \<open>/README.md\<close>
  appended; a bare \<open>https://github.com/user/repo\<close> gives the README of the master branch.
  Here \<open>user\<close>, \<open>repo\<close> and \<open>branch\<close> are non-empty texts without a slash and \<open>path\<close> is a
  non-empty text on one line.
\<close>

theorem convert_github_to_raw_cases:
  "(contains url ''raw.githubusercontent.com'' \<longrightarrow> convert_github_to_raw url = Some url)
   \<and> (\<not> contains url ''raw.githubusercontent.com'' \<and> \<not> contains url ''github.com''
        \<longrightarrow> convert_github_to_raw url = None)
   \<and> (user \<noteq> [] \<and> CHR ''/'' \<notin> set user \<and> repo \<noteq> [] \<and> CHR ''/'' \<notin> set repo
        \<and> branch \<noteq> [] \<and> CHR ''/'' \<notin> set branch \<and> path \<noteq> [] \<and> NL \<notin> set path
        \<and> \<not> contains (''https://github.com/'' @ user @ ''/'' @ repo @ ''/blob/'' @ branch @ ''/'' @ path)
              ''raw.githubusercontent.com''
        \<longrightarrow> convert_github_to_raw (''https://github.com/'' @ user @ ''/'' @ repo @ ''/blob/'' @ branch @ ''/'' @ path)
            = Some (''https://raw.githubusercontent.com/'' @ user @ ''/'' @ repo @ ''/'' @ branch @ ''/'' @ path))
   \<and> (user \<noteq> [] \<and> CHR ''/'' \<notin> set user \<and> repo \<noteq> [] \<and> CHR ''/'' \<notin> set repo
        \<and> branch \<noteq> [] \<and> CHR ''/'' \<notin> set branch \<and> path \<noteq> [] \<and> NL \<notin> set path
        \<and> \<not> contains (''https://github.com/'' @ user @ ''/'' @ repo @ ''/tree/'' @ branch @ ''/'' @ path)
              ''raw.githubusercontent.com''
        \<longrightarrow> convert_github_to_raw (''https://github.com/'' @ user @ ''/'' @ repo @ ''/tree/'' @ branch @ ''/'' @ path)
            = Some (''https://raw.githubusercontent.com/'' @ user @ ''/'' @ repo @ ''/'' @ branch @ ''/'' @ path
                    @ ''/README.md''))
   \<and> (user \<noteq> [] \<and> CHR ''/'' \<notin> set user \<and> repo \<noteq> [] \<and> CHR ''/'' \<notin> set repo
        \<and> \<not> contains (''https://github.com/'' @ user @ ''/'' @ repo) ''raw.githubusercontent.com''
        \<longrightarrow> convert_github_to_raw (''https://github.com/'' @ user @ ''/'' @ repo)
            = Some (''https://raw.githubusercontent.com/'' @ user @ ''/'' @ repo @ ''/master/README.md''))"
proof (intro conjI impI)
  assume "contains url ''raw.githubusercontent.com''"
  then show "convert_github_to_raw url = Some url"
    by (simp add: convert_github_to_raw_def)
next
  assume "\<not> contains url ''raw.githubusercontent.com'' \<and> \<not> contains url ''github.com''"
  then show "convert_github_to_raw url = None"
    by (simp add: convert_github_to_raw_def)
next
  let ?url = "''https://github.com/'' @ user @ ''/'' @ repo @ ''/blob/'' @ branch @ ''/'' @ path"
  assume h: "user \<noteq> [] \<and> CHR ''/'' \<notin> set user \<and> repo \<noteq> [] \<and> CHR ''/'' \<notin> set repo
        \<and> branch \<noteq> [] \<and> CHR ''/'' \<notin> set branch \<and> path \<noteq> [] \<and> NL \<notin> set path
        \<and> \<not> contains ?url ''raw.githubusercontent.com''"
  have gh: "contains ?url ''github.com''"
    by (rule github_url_contains)
  have "re_match blob_pat ?url
      = Some ([''https://github.com/'', user, ''/'', repo, ''/blob/'', branch, ''/'', path], [])"
    unfolding blob_pat_def using h by (intro file_pat_matches) simp_all
  then show "convert_github_to_raw ?url
      = Some (''https://raw.githubusercontent.com/'' @ user @ ''/'' @ repo @ ''/'' @ branch @ ''/'' @ path)"
    unfolding convert_github_to_raw_def using h gh by (simp add: group_def raw_host_def)
next
  let ?url = "''https://github.com/'' @ user @ ''/'' @ repo @ ''/tree/'' @ branch @ ''/'' @ path"
  assume h: "user \<noteq> [] \<and> CHR ''/'' \<notin> set user \<and> repo \<noteq> [] \<and> CHR ''/'' \<notin> set repo
        \<and> branch \<noteq> [] \<and> CHR ''/'' \<notin> set branch \<and> path \<noteq> [] \<and> NL \<notin> set path
        \<and> \<not> contains ?url ''raw.githubusercontent.com''"
  have gh: "contains ?url ''github.com''"
    by (rule github_url_contains)
  have "re_match blob_pat (''https://github.com/'' @ user @ ''/'' @ repo @ (''/tree/'' @ branch @ ''/'' @ path)) = None"
    unfolding blob_pat_def using h by (intro file_pat_fails) (simp_all add: startswith_def)
  then have blob: "re_match blob_pat ?url = None"
    by simp
  have tree: "re_match tree_pat ?url
      = Some ([''https://github.com/'', user, ''/'', repo, ''/tree/'', branch, ''/'', path], [])"
    unfolding tree_pat_def using h by (intro file_pat_matches) simp_all
  show "convert_github_to_raw ?url
      = Some (''https://raw.githubusercontent.com/'' @ user @ ''/'' @ repo @ ''/'' @ branch @ ''/'' @ path
              @ ''/README.md'')"
    unfolding convert_github_to_raw_def blob tree using h gh by (simp add: group_def raw_host_def)
next
  let ?url = "''https://github.com/'' @ user @ ''/'' @ repo"
  assume h: "user \<noteq> [] \<and> CHR ''/'' \<notin> set user \<and> repo \<noteq> [] \<and> CHR ''/'' \<notin> set repo
        \<and> \<not> contains ?url ''raw.githubusercontent.com''"
  have gh: "contains ?url ''github.com''"
    by (rule github_url_contains)
  have "re_match blob_pat (''https://github.com/'' @ user @ ''/'' @ repo @ []) = None"
    unfolding blob_pat_def using h by (intro file_pat_fails) (simp_all add: startswith_def)
  then have blob: "re_match blob_pat ?url = None"
    by simp
  have "re_match tree_pat (''https://github.com/'' @ user @ ''/'' @ repo @ []) = None"
    unfolding tree_pat_def using h by (intro file_pat_fails) (simp_all add: startswith_def)
  then have tree: "re_match tree_pat ?url = None"
    by simp
  have bare: "re_match repo_pat ?url = Some ([''https://github.com/'', user, ''/'', repo, [], []], [])"
    using h by (intro repo_pat_matches) simp_all
  show "convert_github_to_raw ?url
      = Some (''https://raw.githubusercontent.com/'' @ user @ ''/'' @ repo @ ''/master/README.md'')"
    unfolding convert_github_to_raw_def blob tree bare using h gh by (simp add: group_def raw_host_def)
qed

theorem convert_github_to_raw_cases_witness:
  "convert_github_to_raw ''https://raw.githubusercontent.com/Azure/RSL/master/README.md''
     = Some ''https://raw.githubusercontent.com/Azure/RSL/master/README.md''
   \<and> convert_github_to_raw ''https://lamport.azurewebsites.net/tla/toolbox.html'' = None
   \<and> convert_github_to_raw ''https://github.com/nano-o/MultiPaxos/blob/master/DiskPaxos.tla''
     = Some ''https://raw.githubusercontent.com/nano-o/MultiPaxos/master/DiskPaxos.tla''
   \<and> convert_github_to_raw ''https://github.com/banhday/tlabenchmarks/tree/master/benchmarks/spanning''
     = Some ''https://raw.githubusercontent.com/banhday/tlabenchmarks/master/benchmarks/spanning/README.md''
   \<and> convert_github_to_raw ''https://github.com/Azure/RingMaster''
     = Some ''https://raw.githubusercontent.com/Azure/RingMaster/master/README.md''"
proof -
  note raw = convert_github_to_raw_cases [THEN conjunct1]
  note other = convert_github_to_raw_cases [THEN conjunct2, THEN conjunct1]
  note blob = convert_github_to_raw_cases [THEN conjunct2, THEN conjunct2, THEN conjunct1]
  note tree = convert_github_to_raw_cases [THEN conjunct2, THEN conjunct2, THEN conjunct2, THEN conjunct1]
  note bare = convert_github_to_raw_cases [THEN conjunct2, THEN conjunct2, THEN conjunct2, THEN conjunct2]
  have "contains ''https://raw.githubusercontent.com/Azure/RSL/master/README.md'' ''raw.githubusercontent.com''"
    by code_simp
  with raw have a: "convert_github_to_raw ''https://raw.githubusercontent.com/Azure/RSL/master/README.md''
      = Some ''https://raw.githubusercontent.com/Azure/RSL/master/README.md''"
    by (rule mp)
  have "\<not> contains ''https://lamport.azurewebsites.net/tla/toolbox.html'' ''raw.githubusercontent.com''
      \<and> \<not> contains ''https://lamport.azurewebsites.net/tla/toolbox.html'' ''github.com''"
    by code_simp
  with other have b: "convert_github_to_raw ''https://lamport.azurewebsites.net/tla/toolbox.html'' = None"
    by (rule mp)
  have "''nano-o'' \<noteq> [] \<and> CHR ''/'' \<notin> set ''nano-o'' \<and> ''MultiPaxos'' \<noteq> [] \<and> CHR ''/'' \<notin> set ''MultiPaxos''
        \<and> ''master'' \<noteq> [] \<and> CHR ''/'' \<notin> set ''master'' \<and> ''DiskPaxos.tla'' \<noteq> [] \<and> NL \<notin> set ''DiskPaxos.tla''
        \<and> \<not> contains (''https://github.com/'' @ ''nano-o'' @ ''/'' @ ''MultiPaxos'' @ ''/blob/'' @ ''master'' @ ''/'' @ ''DiskPaxos.tla'')
              ''raw.githubusercontent.com''"
    by code_simp
  with blob [of "''nano-o''" "''MultiPaxos''" "''master''" "''DiskPaxos.tla''"]
  have "convert_github_to_raw (''https://github.com/'' @ ''nano-o'' @ ''/'' @ ''MultiPaxos'' @ ''/blob/'' @ ''master'' @ ''/'' @ ''DiskPaxos.tla'')
      = Some (''https://raw.githubusercontent.com/'' @ ''nano-o'' @ ''/'' @ ''MultiPaxos'' @ ''/'' @ ''master'' @ ''/'' @ ''DiskPaxos.tla'')"
    by (rule mp)
  then have c: "convert_github_to_raw ''https://github.com/nano-o/MultiPaxos/blob/master/DiskPaxos.tla''
      = Some ''https://raw.githubusercontent.com/nano-o/MultiPaxos/master/DiskPaxos.tla''"
    by simp
  have "''banhday'' \<noteq> [] \<and> CHR ''/'' \<notin> set ''banhday'' \<and> ''tlabenchmarks'' \<noteq> [] \<and> CHR ''/'' \<notin> set ''tlabenchmarks''
        \<and> ''master'' \<noteq> [] \<and> CHR ''/'' \<notin> set ''master'' \<and> ''benchmarks/spanning'' \<noteq> [] \<and> NL \<notin> set ''benchmarks/spanning''
        \<and> \<not> contains (''https://github.com/'' @ ''banhday'' @ ''/'' @ ''tlabenchmarks'' @ ''/tree/'' @ ''master'' @ ''/'' @ ''benchmarks/spanning'')
              ''raw.githubusercontent.com''"
    by code_simp
  with tree [of "''banhday''" "''tlabenchmarks''" "''master''" "''benchmarks/spanning''"]
  have "convert_github_to_raw (''https://github.com/'' @ ''banhday'' @ ''/'' @ ''tlabenchmarks'' @ ''/tree/'' @ ''master'' @ ''/'' @ ''benchmarks/spanning'')
      = Some (''https://raw.githubusercontent.com/'' @ ''banhday'' @ ''/'' @ ''tlabenchmarks'' @ ''/'' @ ''master'' @ ''/'' @ ''benchmarks/spanning''
              @ ''/README.md'')"
    by (rule mp)
  then have d: "convert_github_to_raw ''https://github.com/banhday/tlabenchmarks/tree/master/benchmarks/spanning''
      = Some ''https://raw.githubusercontent.com/banhday/tlabenchmarks/master/benchmarks/spanning/README.md''"
    by simp
  have "''Azure'' \<noteq> [] \<and> CHR ''/'' \<notin> set ''Azure'' \<and> ''RingMaster'' \<noteq> [] \<and> CHR ''/'' \<notin> set ''RingMaster''
        \<and> \<not> contains (''https://github.com/'' @ ''Azure'' @ ''/'' @ ''RingMaster'') ''raw.githubusercontent.com''"
    by code_simp
  with bare [of "''Azure''" "''RingMaster''"]
  have "convert_github_to_raw (''https://github.com/'' @ ''Azure'' @ ''/'' @ ''RingMaster'')
      = Some (''https://raw.githubusercontent.com/'' @ ''Azure'' @ ''/'' @ ''RingMaster'' @ ''/master/README.md'')"
    by (rule mp)
  then have e: "convert_github_to_raw ''https://github.com/Azure/RingMaster''
      = Some ''https://raw.githubusercontent.com/Azure/RingMaster/master/README.md''"
    by simp
  from a b c d e show ?thesis
    by (intro conjI)
qed

text \<open>
  C10 as stated fails for a tree URL that ends with the branch: the tree pattern asks
  for a slash and a path after the branch, and the pattern of a bare repository ends
  after the repository, so the URL of the root of a branch is not converted.
\<close>

theorem convert_github_to_raw_cases_counterexample:
  "contains ''https://github.com/banhday/tlabenchmarks/tree/master'' ''/tree/''
   \<and> convert_github_to_raw ''https://github.com/banhday/tlabenchmarks/tree/master'' = None"
  by code_simp

lemma optional_slash_fails:
  assumes "3 \<le> length s"
  shows "step (opt (Chars ''/'')) (step Eol (re_match [])) s = None"
proof -
  from assms obtain x y z zs where s: "s = x # y # z # zs"
    by (cases s; cases "tl s"; cases "tl (tl s)") auto
  show ?thesis
    unfolding s by (simp add: rep_none_left push_def)
qed

text \<open>Every tree URL that ends with the branch gives \<open>None\<close>.\<close>

lemma tree_without_path:
  assumes "CHR ''/'' \<notin> set user" and "CHR ''/'' \<notin> set repo" and "CHR ''/'' \<notin> set branch"
    and "\<not> contains (''https://github.com/'' @ user @ ''/'' @ repo @ ''/tree/'' @ branch)
          ''raw.githubusercontent.com''"
  shows "convert_github_to_raw (''https://github.com/'' @ user @ ''/'' @ repo @ ''/tree/'' @ branch) = None"
proof -
  let ?url = "''https://github.com/'' @ user @ ''/'' @ repo @ ''/tree/'' @ branch"
  have "re_match blob_pat (''https://github.com/'' @ user @ ''/'' @ repo @ (''/tree/'' @ branch)) = None"
    unfolding blob_pat_def using assms(1,2) by (intro file_pat_fails) (simp_all add: startswith_def)
  then have blob: "re_match blob_pat ?url = None"
    by simp
  have tree: "re_match tree_pat ?url = None"
  proof -
    define k7 where "k7 = step (plus Dot) (re_match [])"
    define k5 where "k5 = step (plus (NotChars ''/'')) (step (Lit ''/'') k7)"
    define k3 where "k3 = step (plus (NotChars ''/'')) (step (Lit ''/tree/'') k5)"
    define k1 where "k1 = step (plus (NotChars ''/'')) (step (Lit ''/'') k3)"
    have "step (Lit ''/'') k7 [] = None"
      by (simp add: startswith_def)
    then have "k5 (branch @ []) = None"
      unfolding k5_def using assms(3) by (intro segment_fails) simp_all
    then have f5: "k5 branch = None"
      by simp
    have "step (Lit ''/tree/'') k5 (''/tree/'' @ branch) = None"
      unfolding lit_matches f5 by (simp add: push_def)
    then have f3: "k3 (repo @ ''/tree/'' @ branch) = None"
      unfolding k3_def using assms(2) by (intro segment_fails) simp_all
    have "step (Lit ''/'') k3 (''/'' @ repo @ ''/tree/'' @ branch) = None"
      unfolding lit_matches f3 by (simp add: push_def)
    then have f1: "k1 (user @ ''/'' @ repo @ ''/tree/'' @ branch) = None"
      unfolding k1_def using assms(1) by (intro segment_fails) simp_all
    have "re_match tree_pat = step (Lit ''https://github.com/'') k1"
      unfolding tree_pat_def k1_def k3_def k5_def k7_def by simp
    then show ?thesis
      using lit_matches [of "''https://github.com/''" k1] f1 by (simp add: push_def)
  qed
  have bare: "re_match repo_pat ?url = None"
  proof -
    define k4 where "k4 = step (opt (Chars ''/'')) (step Eol (re_match []))"
    define k3 where "k3 = step (plus (NotChars ''/'')) k4"
    define k1 where "k1 = step (plus (NotChars ''/'')) (step (Lit ''/'') k3)"
    have "\<forall>i \<le> length repo. k4 (drop i repo @ ''/tree/'' @ branch) = None"
      unfolding k4_def by (intro allI impI optional_slash_fails) simp
    then have f3: "k3 (repo @ ''/tree/'' @ branch) = None"
      unfolding k3_def step.simps by (intro rep_greedy_none) simp_all
    have "step (Lit ''/'') k3 (''/'' @ repo @ ''/tree/'' @ branch) = None"
      unfolding lit_matches f3 by (simp add: push_def)
    then have f1: "k1 (user @ ''/'' @ repo @ ''/tree/'' @ branch) = None"
      unfolding k1_def using assms(1) by (intro segment_fails) simp_all
    have "re_match repo_pat = step (Lit ''https://github.com/'') k1"
      unfolding repo_pat_def k1_def k3_def k4_def by simp
    then show ?thesis
      using lit_matches [of "''https://github.com/''" k1] f1 by (simp add: push_def)
  qed
  show ?thesis
    unfolding convert_github_to_raw_def blob tree bare using assms(4) by simp
qed

section \<open>Properties of the link scraper\<close>

lemma scrape_link_fetched:
  assumes "http_get e (clean_url url) = Inr (content, final)"
  shows "scrape_link e url fs =
     (if content = [] then (False, fs)
      else if is_pdf_content content then
        (case extract_pdf_text e content of
           None \<Rightarrow> (False, fs)
         | Some text \<Rightarrow>
             if text = [] then (False, fs)
             else (True, fs(link_path e ''pdf_'' (clean_url url) \<mapsto> record_text (clean_url url) final text)))
      else (True, fs(link_path e ''web_'' (clean_url url)
                      \<mapsto> record_text (clean_url url) final (decode e content))))"
  unfolding scrape_link_def Let_def fetch_url_def assms
  by (simp add: fmt_def split: option.splits)

lemma scrape_link_failed:
  assumes "http_get e (clean_url url) = Inl err"
  shows "scrape_link e url fs = (False, fs)"
  unfolding scrape_link_def Let_def fetch_url_def assms by simp

text \<open>
  C5, as the code has it. \<open>is_pdf_content\<close> is true exactly for the byte strings that
  start with \<open>%PDF\<close>. \<open>scrape_link\<close> gives fetched content that is not empty to the PDF
  extractor when it is classified as PDF, and writes the extracted text to a file named
  with the prefix \<open>pdf_\<close> when that text is not empty (nothing is written otherwise);
  every other content that is not empty is decoded and written to a file named with the
  prefix \<open>web_\<close>. Empty content is treated as a failed fetch.
\<close>

theorem content_classification:
  "(is_pdf_content content \<longleftrightarrow> (\<exists>rest. content = ''%PDF'' @ rest))
   \<and> (http_get e (clean_url url) = Inr (content, final) \<and> content \<noteq> [] \<and> is_pdf_content content \<longrightarrow>
        (\<forall>text. extract_pdf_text e content = Some text \<and> text \<noteq> [] \<longrightarrow>
           scrape_link e url fs =
             (True, fs(output_dir e @ ''/'' @ ''pdf_'' @ sanitize_filename e (clean_url url) @ ''.txt''
                        \<mapsto> record_text (clean_url url) final text)))
        \<and> (extract_pdf_text e content = None \<or> extract_pdf_text e content = Some [] \<longrightarrow>
             scrape_link e url fs = (False, fs)))
   \<and> (http_get e (clean_url url) = Inr (content, final) \<and> content \<noteq> [] \<and> \<not> is_pdf_content content \<longrightarrow>
        scrape_link e url fs =
          (True, fs(output_dir e @ ''/'' @ ''web_'' @ sanitize_filename e (clean_url url) @ ''.txt''
                     \<mapsto> record_text (clean_url url) final (decode e content))))
   \<and> (http_get e (clean_url url) = Inr ([], final) \<longrightarrow> scrape_link e url fs = (False, fs))"
proof (intro conjI impI allI)
  show "is_pdf_content content \<longleftrightarrow> (\<exists>rest. content = ''%PDF'' @ rest)"
  proof
    assume "is_pdf_content content"
    then have "content = ''%PDF'' @ drop 4 content"
      unfolding is_pdf_content_def using append_take_drop_id [of 4 content] by metis
    then show "\<exists>rest. content = ''%PDF'' @ rest"
      by (rule exI)
  next
    assume "\<exists>rest. content = ''%PDF'' @ rest"
    then show "is_pdf_content content"
      by (auto simp: is_pdf_content_def)
  qed
next
  fix extracted
  assume "http_get e (clean_url url) = Inr (content, final) \<and> content \<noteq> [] \<and> is_pdf_content content"
    and "extract_pdf_text e content = Some extracted \<and> extracted \<noteq> []"
  then show "scrape_link e url fs =
      (True, fs(output_dir e @ ''/'' @ ''pdf_'' @ sanitize_filename e (clean_url url) @ ''.txt''
                 \<mapsto> record_text (clean_url url) final extracted))"
    using scrape_link_fetched [of e url content final fs] by (simp add: link_path_def)
next
  assume "http_get e (clean_url url) = Inr (content, final) \<and> content \<noteq> [] \<and> is_pdf_content content"
    and "extract_pdf_text e content = None \<or> extract_pdf_text e content = Some []"
  then show "scrape_link e url fs = (False, fs)"
    using scrape_link_fetched [of e url content final fs] by auto
next
  assume "http_get e (clean_url url) = Inr (content, final) \<and> content \<noteq> [] \<and> \<not> is_pdf_content content"
  then show "scrape_link e url fs =
      (True, fs(output_dir e @ ''/'' @ ''web_'' @ sanitize_filename e (clean_url url) @ ''.txt''
                 \<mapsto> record_text (clean_url url) final (decode e content)))"
    using scrape_link_fetched [of e url content final fs] by (simp add: link_path_def)
next
  assume "http_get e (clean_url url) = Inr ([], final)"
  then show "scrape_link e url fs = (False, fs)"
    using scrape_link_fetched [of e url "[]" final fs] by simp
qed

theorem content_classification_witness:
  "is_pdf_content ''%PDF-1.4 scanned''
   \<and> \<not> is_pdf_content ''<p>Hello</p>''
   \<and> scrape_link (example_env pdf_reply) ''http://a.example/paper.pdf;'' Map.empty = (False, Map.empty)
   \<and> scrape_link (example_env flaky_reply) ''http://a.example/up.'' Map.empty
       = (True, [''external_links/web_http://a.example/up.txt''
                 \<mapsto> record_text ''http://a.example/up'' ''http://a.example/up'' ''<p>Hello</p>''])"
proof -
  note pdf = content_classification [THEN conjunct2, THEN conjunct1]
  note web = content_classification [THEN conjunct2, THEN conjunct2, THEN conjunct1]
  have a: "is_pdf_content ''%PDF-1.4 scanned''"
    using content_classification [of "''%PDF-1.4 scanned''", THEN conjunct1] by simp
  have b: "\<not> is_pdf_content ''<p>Hello</p>''"
    using content_classification [of "''<p>Hello</p>''", THEN conjunct1] by simp
  have u1: "clean_url ''http://a.example/paper.pdf;'' = ''http://a.example/paper.pdf''"
    by code_simp
  have "http_get (example_env pdf_reply) (clean_url ''http://a.example/paper.pdf;'')
          = Inr (''%PDF-1.4 scanned'', ''http://a.example/paper.pdf'')
        \<and> ''%PDF-1.4 scanned'' \<noteq> [] \<and> is_pdf_content ''%PDF-1.4 scanned''"
    using a by (simp add: u1 example_env_def pdf_reply_def)
  with pdf have "extract_pdf_text (example_env pdf_reply) ''%PDF-1.4 scanned'' = None
        \<or> extract_pdf_text (example_env pdf_reply) ''%PDF-1.4 scanned'' = Some []
      \<longrightarrow> scrape_link (example_env pdf_reply) ''http://a.example/paper.pdf;'' Map.empty = (False, Map.empty)"
    by blast
  moreover have "extract_pdf_text (example_env pdf_reply) ''%PDF-1.4 scanned'' = Some []"
    by (simp add: extract_pdf_text_def example_env_def scanned_pdf_def)
  ultimately have c: "scrape_link (example_env pdf_reply) ''http://a.example/paper.pdf;'' Map.empty = (False, Map.empty)"
    by blast
  have u2: "clean_url ''http://a.example/up.'' = ''http://a.example/up''"
    by code_simp
  have "http_get (example_env flaky_reply) (clean_url ''http://a.example/up.'')
          = Inr (''<p>Hello</p>'', ''http://a.example/up'')
        \<and> ''<p>Hello</p>'' \<noteq> [] \<and> \<not> is_pdf_content ''<p>Hello</p>''"
    using b by (simp add: u2 example_env_def flaky_reply_def)
  with web have "scrape_link (example_env flaky_reply) ''http://a.example/up.'' Map.empty
      = (True, Map.empty(output_dir (example_env flaky_reply) @ ''/'' @ ''web_''
                 @ sanitize_filename (example_env flaky_reply) (clean_url ''http://a.example/up.'') @ ''.txt''
               \<mapsto> record_text (clean_url ''http://a.example/up.'') ''http://a.example/up''
                    (decode (example_env flaky_reply) ''<p>Hello</p>'')))"
    by (rule mp)
  then have d: "scrape_link (example_env flaky_reply) ''http://a.example/up.'' Map.empty
       = (True, [''external_links/web_http://a.example/up.txt''
                 \<mapsto> record_text ''http://a.example/up'' ''http://a.example/up'' ''<p>Hello</p>''])"
    by (simp add: u2 example_env_def)
  from a b c d show ?thesis
    by (intro conjI)
qed

text \<open>
  C5 as stated fails: an empty body is not PDF content and is not written to any file,
  and a PDF in which the library finds no text is not written either.
\<close>

theorem content_classification_counterexample:
  "\<not> is_pdf_content []
   \<and> http_get (example_env empty_reply) (clean_url ''http://a.example/empty'') = Inr ([], ''http://a.example/empty'')
   \<and> scrape_link (example_env empty_reply) ''http://a.example/empty'' Map.empty = (False, Map.empty)
   \<and> is_pdf_content ''%PDF-1.4 scanned''
   \<and> http_get (example_env pdf_reply) (clean_url ''http://a.example/paper.pdf'')
       = Inr (''%PDF-1.4 scanned'', ''http://a.example/paper.pdf'')
   \<and> scrape_link (example_env pdf_reply) ''http://a.example/paper.pdf'' Map.empty = (False, Map.empty)"
proof -
  have u1: "clean_url ''http://a.example/empty'' = ''http://a.example/empty''"
    and u2: "clean_url ''http://a.example/paper.pdf'' = ''http://a.example/paper.pdf''"
    by code_simp+
  have a: "\<not> is_pdf_content []" and d: "is_pdf_content ''%PDF-1.4 scanned''"
    by (simp_all add: is_pdf_content_def)
  have b: "http_get (example_env empty_reply) (clean_url ''http://a.example/empty'')
      = Inr ([], ''http://a.example/empty'')"
    by (simp add: u1 example_env_def empty_reply_def)
  have e: "http_get (example_env pdf_reply) (clean_url ''http://a.example/paper.pdf'')
      = Inr (''%PDF-1.4 scanned'', ''http://a.example/paper.pdf'')"
    by (simp add: u2 example_env_def pdf_reply_def)
  have c: "scrape_link (example_env empty_reply) ''http://a.example/empty'' Map.empty = (False, Map.empty)"
    using scrape_link_fetched [OF b] by simp
  have "extract_pdf_text (example_env pdf_reply) ''%PDF-1.4 scanned'' = Some []"
    by (simp add: extract_pdf_text_def example_env_def scanned_pdf_def)
  then have f: "scrape_link (example_env pdf_reply) ''http://a.example/paper.pdf'' Map.empty = (False, Map.empty)"
    using scrape_link_fetched [OF e] d by simp
  from a b c d e f show ?thesis
    by (intro conjI)
qed

lemma scrape_all_total:
  "successful (snd (scrape_all e links (fs, c))) + failed (snd (scrape_all e links (fs, c)))
     + skipped (snd (scrape_all e links (fs, c)))
   = successful c + failed c + skipped c + length links"
proof (induction links arbitrary: fs c)
  case Nil
  show ?case by simp
next
  case (Cons url links)
  show ?case
  proof (cases "startswith url ''https://www.youtube.com'' \<or> startswith url ''https://youtu.be''
                \<or> url \<in> set already_scraped")
    case True
    then show ?thesis
      using Cons.IH [of fs "c\<lparr>skipped := skipped c + 1\<rparr>"] by auto
  next
    case False
    obtain ok fs' where r: "scrape_link e url fs = (ok, fs')"
      by (cases "scrape_link e url fs")
    show ?thesis
    proof (cases ok)
      case True
      then show ?thesis
        using False r Cons.IH [of fs' "c\<lparr>successful := successful c + 1\<rparr>"] by simp
    next
      case ok: False
      then show ?thesis
        using False r Cons.IH [of fs' "c\<lparr>failed := failed c + 1\<rparr>"] by simp
    qed
  qed
qed

text \<open>
  C8. When the request for a URL raises, \<open>fetch_url\<close> returns \<open>(None, None)\<close>,
  \<open>scrape_link\<close> returns \<open>False\<close> and leaves the files as they are, and the loop of \<open>main\<close>
  counts the URL as failed and goes on with the remaining URLs. Whatever fails, the
  loop reaches the end of the list: the three counters then add up to their sum at the
  start plus the number of URLs.
\<close>

theorem fetch_failure_not_fatal:
  assumes "http_get e (clean_url url) = Inl err"
  shows "fetch_url e (clean_url url) = (None, None)
     \<and> scrape_link e url fs = (False, fs)
     \<and> (\<not> startswith url ''https://www.youtube.com'' \<and> \<not> startswith url ''https://youtu.be''
          \<and> url \<notin> set already_scraped \<longrightarrow>
        scrape_all e (url # links) (fs, c) = scrape_all e links (fs, c\<lparr>failed := failed c + 1\<rparr>))
     \<and> successful (snd (scrape_all e (url # links) (fs, c))) + failed (snd (scrape_all e (url # links) (fs, c)))
          + skipped (snd (scrape_all e (url # links) (fs, c)))
        = successful c + failed c + skipped c + length (url # links)"
proof -
  have a: "fetch_url e (clean_url url) = (None, None)"
    unfolding fetch_url_def assms by simp
  have b: "scrape_link e url fs = (False, fs)"
    using assms by (rule scrape_link_failed)
  have c: "scrape_all e (url # links) (fs, c) = scrape_all e links (fs, c\<lparr>failed := failed c + 1\<rparr>)"
    if "\<not> startswith url ''https://www.youtube.com'' \<and> \<not> startswith url ''https://youtu.be''
          \<and> url \<notin> set already_scraped"
    using that b by simp
  show ?thesis
    using a b c scrape_all_total [of e "url # links" fs c] by blast
qed

theorem fetch_failure_not_fatal_witness:
  "http_get (example_env flaky_reply) (clean_url ''http://a.example/down'') = Inl (Raised ''ConnectionError'')
   \<and> fetch_url (example_env flaky_reply) (clean_url ''http://a.example/down'') = (None, None)
   \<and> scrape_link (example_env flaky_reply) ''http://a.example/down'' Map.empty = (False, Map.empty)
   \<and> scrape_all (example_env flaky_reply) [''http://a.example/down'', ''http://a.example/up'']
        (Map.empty, \<lparr>successful = 0, failed = 0, skipped = 0\<rparr>)
      = ([''external_links/web_http://a.example/up.txt''
            \<mapsto> record_text ''http://a.example/up'' ''http://a.example/up'' ''<p>Hello</p>''],
         \<lparr>successful = 1, failed = 1, skipped = 0\<rparr>)"
proof -
  let ?e = "example_env flaky_reply"
  let ?c = "\<lparr>successful = 0, failed = 0, skipped = 0\<rparr>"
  have u1: "clean_url ''http://a.example/down'' = ''http://a.example/down''"
    and u2: "clean_url ''http://a.example/up'' = ''http://a.example/up''"
    by code_simp+
  have h: "http_get ?e (clean_url ''http://a.example/down'') = Inl (Raised ''ConnectionError'')"
    by (simp add: u1 example_env_def flaky_reply_def)
  note t = fetch_failure_not_fatal [OF h, of Map.empty "[''http://a.example/up'']" ?c]
  have skip: "\<not> startswith ''http://a.example/down'' ''https://www.youtube.com''
      \<and> \<not> startswith ''http://a.example/down'' ''https://youtu.be''
      \<and> ''http://a.example/down'' \<notin> set already_scraped"
    by (simp add: startswith_def already_scraped_def)
  from t [THEN conjunct2, THEN conjunct2, THEN conjunct1] skip
  have step: "scrape_all ?e (''http://a.example/down'' # [''http://a.example/up'']) (Map.empty, ?c)
      = scrape_all ?e [''http://a.example/up''] (Map.empty, ?c\<lparr>failed := failed ?c + 1\<rparr>)"
    by (rule mp)
  have up: "http_get ?e (clean_url ''http://a.example/up'') = Inr (''<p>Hello</p>'', ''http://a.example/up'')"
    by (simp add: u2 example_env_def flaky_reply_def)
  have "scrape_link ?e ''http://a.example/up'' Map.empty
      = (True, [''external_links/web_http://a.example/up.txt''
            \<mapsto> record_text ''http://a.example/up'' ''http://a.example/up'' ''<p>Hello</p>''])"
    using scrape_link_fetched [OF up, of Map.empty]
    by (simp add: u2 is_pdf_content_def link_path_def example_env_def)
  then have rest: "scrape_all ?e [''http://a.example/up''] (Map.empty, ?c\<lparr>failed := failed ?c + 1\<rparr>)
      = ([''external_links/web_http://a.example/up.txt''
            \<mapsto> record_text ''http://a.example/up'' ''http://a.example/up'' ''<p>Hello</p>''],
         \<lparr>successful = 1, failed = 1, skipped = 0\<rparr>)"
    by (simp add: startswith_def already_scraped_def)
  show ?thesis
    using h t [THEN conjunct1] t [THEN conjunct2, THEN conjunct1] step rest by simp
qed

section \<open>Properties of the aggressive cleaning sweep\<close>

lemma clean_file_stored:
  assumes "fs file_path = Some content"
  shows "clean_file h fs file_path =
     (if length (text_only (cleaned_text h content)) < 150 then Inr (False, fs)
      else Inr (True, fs(file_path \<mapsto>
             clean_output (read_metadata no_metadata (take 10 (split_nl content))) (cleaned_text h content))))"
  unfolding clean_file_def assms by (simp add: Let_def)

lemma clean_file_other:
  assumes "clean_file h fs g = Inr (ok, fs')" and "f \<noteq> g"
  shows "fs' f = fs f"
  using assms unfolding clean_file_def by (auto simp: Let_def split: option.splits if_splits)

lemma clean_all_step_other:
  assumes "f \<noteq> g"
  shows "\<exists>fs' c'. clean_all h (g # paths) (fs, c) = clean_all h paths (fs', c') \<and> fs' f = fs f"
proof (cases "clean_file h fs g")
  case (Inl err)
  then have "clean_all h (g # paths) (fs, c) = clean_all h paths (fs, c)"
    by simp
  then show ?thesis
    by blast
next
  case (Inr r)
  obtain ok fs1 where r: "r = (ok, fs1)"
    by (cases r)
  have same: "fs1 f = fs f"
    using Inr assms unfolding r by (rule clean_file_other)
  show ?thesis
  proof (cases ok)
    case True
    then have "clean_all h (g # paths) (fs, c)
        = clean_all h paths (fs1, c\<lparr>success := success c + 1\<rparr>)"
      using Inr r by simp
    then show ?thesis
      using same by blast
  next
    case False
    then have "clean_all h (g # paths) (fs, c)
        = clean_all h paths (fs1(g := None), c\<lparr>deleted := deleted c + 1\<rparr>)"
      using Inr r by simp
    moreover have "(fs1(g := None)) f = fs f"
      using same assms by simp
    ultimately show ?thesis
      by blast
  qed
qed

lemma clean_all_untouched: "f \<notin> set paths \<Longrightarrow> fst (clean_all h paths (fs, c)) f = fs f"
proof (induction paths arbitrary: fs c)
  case Nil
  show ?case by simp
next
  case (Cons g paths)
  then have "f \<noteq> g" and rest: "f \<notin> set paths"
    by auto
  then obtain fs' c' where "clean_all h (g # paths) (fs, c) = clean_all h paths (fs', c')"
    and "fs' f = fs f"
    using clean_all_step_other [of f g h paths fs c] by blast
  then show ?case
    using Cons.IH [OF rest, of fs' c'] by simp
qed

lemma clean_all_result:
  assumes "distinct paths" and "f \<in> set paths" and "fs f = Some content"
  shows "fst (clean_all h paths (fs, c)) f =
     (if length (text_only (cleaned_text h content)) < 150 then None
      else Some (clean_output (read_metadata no_metadata (take 10 (split_nl content))) (cleaned_text h content)))"
  using assms
proof (induction paths arbitrary: fs c)
  case Nil
  then show ?case by simp
next
  case (Cons g paths)
  show ?case
  proof (cases "f = g")
    case True
    then have rest: "f \<notin> set paths"
      using Cons.prems(1) by simp
    show ?thesis
      using clean_file_stored [of fs f content h] Cons.prems(3) True
        clean_all_untouched [OF rest, of h]
      by (simp split: if_splits)
  next
    case False
    then have d: "distinct paths" and m: "f \<in> set paths"
      using Cons.prems(1,2) by auto
    obtain fs' c' where "clean_all h (g # paths) (fs, c) = clean_all h paths (fs', c')"
      and "fs' f = fs f"
      using clean_all_step_other [OF False, of h paths fs c] by blast
    then show ?thesis
      using Cons.IH [OF d m, of fs' c'] Cons.prems(3) by simp
  qed
qed

text \<open>
  C2. For a record file in the sweep, let the cleaned text be what \<open>clean_file\<close> computes
  from it. If the cleaned text with its whitespace runs collapsed has fewer than 150
  characters, \<open>clean_file\<close> returns \<open>False\<close> and leaves the files as they are, and the sweep
  unlinks the file and counts it as deleted; otherwise \<open>clean_file\<close> overwrites the file,
  returns \<open>True\<close>, and the sweep counts it as cleaned and does not delete it. At the end
  of a sweep over distinct paths the file is absent in the first case and holds the
  cleaned record in the second.
\<close>

theorem minimum_substance_deletion:
  assumes "fs file_path = Some content"
  shows "(length (text_only (cleaned_text h content)) < 150 \<longrightarrow>
            clean_file h fs file_path = Inr (False, fs)
            \<and> clean_all h (file_path # paths) (fs, c)
                = clean_all h paths (fs(file_path := None), c\<lparr>deleted := deleted c + 1\<rparr>))
     \<and> (150 \<le> length (text_only (cleaned_text h content)) \<longrightarrow>
            clean_file h fs file_path = Inr (True, fs(file_path \<mapsto>
                clean_output (read_metadata no_metadata (take 10 (split_nl content))) (cleaned_text h content)))
            \<and> clean_all h (file_path # paths) (fs, c)
                = clean_all h paths (fs(file_path \<mapsto>
                    clean_output (read_metadata no_metadata (take 10 (split_nl content))) (cleaned_text h content)),
                    c\<lparr>success := success c + 1\<rparr>))
     \<and> (distinct sweep \<and> file_path \<in> set sweep \<longrightarrow>
            fst (clean_all h sweep (fs, c)) file_path =
              (if length (text_only (cleaned_text h content)) < 150 then None
               else Some (clean_output (read_metadata no_metadata (take 10 (split_nl content)))
                            (cleaned_text h content))))"
proof (intro conjI impI)
  assume short: "length (text_only (cleaned_text h content)) < 150"
  then show a: "clean_file h fs file_path = Inr (False, fs)"
    using clean_file_stored [of fs file_path content h] assms by simp
  show "clean_all h (file_path # paths) (fs, c)
      = clean_all h paths (fs(file_path := None), c\<lparr>deleted := deleted c + 1\<rparr>)"
    using a by simp
next
  assume long: "150 \<le> length (text_only (cleaned_text h content))"
  then show b: "clean_file h fs file_path = Inr (True, fs(file_path \<mapsto>
      clean_output (read_metadata no_metadata (take 10 (split_nl content))) (cleaned_text h content)))"
    using clean_file_stored [of fs file_path content h] assms by simp
  show "clean_all h (file_path # paths) (fs, c)
      = clean_all h paths (fs(file_path \<mapsto>
          clean_output (read_metadata no_metadata (take 10 (split_nl content))) (cleaned_text h content)),
          c\<lparr>success := success c + 1\<rparr>)"
    using b by simp
next
  assume "distinct sweep \<and> file_path \<in> set sweep"
  then show "fst (clean_all h sweep (fs, c)) file_path =
      (if length (text_only (cleaned_text h content)) < 150 then None
       else Some (clean_output (read_metadata no_metadata (take 10 (split_nl content)))
                    (cleaned_text h content)))"
    using clean_all_result [of sweep file_path fs content h c] assms by simp
qed

theorem minimum_substance_deletion_witness:
  "length (text_only (cleaned_text example_html (record_text ''u'' ''v'' example_page))) < 150
   \<and> 150 \<le> length (text_only (cleaned_text example_html (record_text ''u'' ''v'' long_text)))
   \<and> fst (clean_all example_html [''web_a.txt'', ''web_b.txt'']
        ([''web_a.txt'' \<mapsto> record_text ''u'' ''v'' example_page,
          ''web_b.txt'' \<mapsto> record_text ''u'' ''v'' long_text], \<lparr>success = 0, deleted = 0\<rparr>)) ''web_a.txt''
      = None
   \<and> fst (clean_all example_html [''web_a.txt'', ''web_b.txt'']
        ([''web_a.txt'' \<mapsto> record_text ''u'' ''v'' example_page,
          ''web_b.txt'' \<mapsto> record_text ''u'' ''v'' long_text], \<lparr>success = 0, deleted = 0\<rparr>)) ''web_b.txt''
      = Some (record_text ''u'' ''v'' long_text)"
proof -
  let ?fs = "[''web_a.txt'' \<mapsto> record_text ''u'' ''v'' example_page,
              ''web_b.txt'' \<mapsto> record_text ''u'' ''v'' long_text]"
  let ?c = "\<lparr>success = 0, deleted = 0\<rparr>"
  have short: "length (text_only (cleaned_text example_html (record_text ''u'' ''v'' example_page))) < 150"
    by code_simp
  have long: "150 \<le> length (text_only (cleaned_text example_html (record_text ''u'' ''v'' long_text)))"
    by code_simp
  have out: "clean_output (read_metadata no_metadata (take 10 (split_nl (record_text ''u'' ''v'' long_text))))
        (cleaned_text example_html (record_text ''u'' ''v'' long_text))
      = record_text ''u'' ''v'' long_text"
    by code_simp
  have fa: "?fs ''web_a.txt'' = Some (record_text ''u'' ''v'' example_page)"
    and fb: "?fs ''web_b.txt'' = Some (record_text ''u'' ''v'' long_text)"
    by simp_all
  have sweep: "distinct [''web_a.txt'', ''web_b.txt''] \<and> ''web_a.txt'' \<in> set [''web_a.txt'', ''web_b.txt'']"
    "distinct [''web_a.txt'', ''web_b.txt''] \<and> ''web_b.txt'' \<in> set [''web_a.txt'', ''web_b.txt'']"
    by simp_all
  note ta = minimum_substance_deletion [of ?fs "''web_a.txt''" "record_text ''u'' ''v'' example_page"
      example_html "[]" ?c "[''web_a.txt'', ''web_b.txt'']", OF fa, THEN conjunct2, THEN conjunct2]
  note tb = minimum_substance_deletion [of ?fs "''web_b.txt''" "record_text ''u'' ''v'' long_text"
      example_html "[]" ?c "[''web_a.txt'', ''web_b.txt'']", OF fb, THEN conjunct2, THEN conjunct2]
  from ta sweep(1) have "fst (clean_all example_html [''web_a.txt'', ''web_b.txt''] (?fs, ?c)) ''web_a.txt'' =
      (if length (text_only (cleaned_text example_html (record_text ''u'' ''v'' example_page))) < 150 then None
       else Some (clean_output (read_metadata no_metadata (take 10 (split_nl (record_text ''u'' ''v'' example_page))))
                    (cleaned_text example_html (record_text ''u'' ''v'' example_page))))"
    by (rule mp)
  then have a: "fst (clean_all example_html [''web_a.txt'', ''web_b.txt''] (?fs, ?c)) ''web_a.txt'' = None"
    using short by simp
  from tb sweep(2) have "fst (clean_all example_html [''web_a.txt'', ''web_b.txt''] (?fs, ?c)) ''web_b.txt'' =
      (if length (text_only (cleaned_text example_html (record_text ''u'' ''v'' long_text))) < 150 then None
       else Some (clean_output (read_metadata no_metadata (take 10 (split_nl (record_text ''u'' ''v'' long_text))))
                    (cleaned_text example_html (record_text ''u'' ''v'' long_text))))"
    by (rule mp)
  then have b: "fst (clean_all example_html [''web_a.txt'', ''web_b.txt''] (?fs, ?c)) ''web_b.txt''
      = Some (record_text ''u'' ''v'' long_text)"
    using long out by simp
  from short long a b show ?thesis
    by (intro conjI)
qed


end
